theory Spec2Isabelle
  imports Complex_Main "HOL-Library.AList" "HOL-Library.Product_Lexorder"
begin
section \<open>Data model\<close>

text \<open>
  The pipeline of \<^verbatim>\<open>main_pipeline.py\<close> works on pandas data frames. A frame is modelled
  column-wise, as pandas stores it: an index and an ordered association list of named columns.

  \<^item> A numeric cell is \<open>Some x\<close> for a number and \<open>None\<close> for not-a-number. Numbers are exact
    reals: rounding, signed zeros and infinities of IEEE doubles are outside the model. The
    constants the source uses (0.25, 0.75, 1.5, 0.1) are exact binary fractions or are compared
    against exactly.
  \<^item> A column is numeric (\<open>NumCol\<close>, the float and integer dtypes) or of dtype object holding
    strings (\<open>ObjCol\<close>, with \<open>None\<close> for a missing entry), as the ticker column is.
  \<^item> The index is a \<open>DatetimeIndex\<close> of calendar days (year, month, day), ordered
    lexicographically, or an index of another kind (\<open>OtherIndex\<close>, integer labels).
  \<^item> Exceptions are values of \<open>exn\<close>; a function that may raise returns \<open>exn + 'a\<close>.
\<close>

datatype exn =
  AssertionError | TypeError | KeyError | AttributeError | DataError
  | SqliteError | ProviderError

type_synonym cell = "real option"

datatype column = NumCol "cell list" | ObjCol "string option list"

type_synonym date = "nat \<times> nat \<times> nat"

datatype pd_index = DatetimeIndex "date list" | OtherIndex "int list"

record frame =
  index :: pd_index
  columns :: "(string \<times> column) list"

definition bind_exn :: "exn + 'a \<Rightarrow> ('a \<Rightarrow> exn + 'b) \<Rightarrow> exn + 'b" where
  "bind_exn r f = (case r of Inl e \<Rightarrow> Inl e | Inr x \<Rightarrow> f x)"

text \<open>\<^verbatim>\<open>pd.DataFrame()\<close>: no rows and no columns (its index is a plain, empty one).\<close>

definition empty_frame :: frame where
  "empty_frame = \<lparr>index = OtherIndex [], columns = []\<rparr>"

fun index_len :: "pd_index \<Rightarrow> nat" where
  "index_len (DatetimeIndex ds) = length ds"
| "index_len (OtherIndex ks) = length ks"

text \<open>\<^verbatim>\<open>len(df)\<close> is the number of rows; \<^verbatim>\<open>df.empty\<close> holds when either axis has length 0.\<close>

definition len :: "frame \<Rightarrow> nat" where
  "len df = index_len (index df)"

definition is_empty :: "frame \<Rightarrow> bool" where
  "is_empty df = (len df = 0 \<or> columns df = [])"

definition col_names :: "frame \<Rightarrow> string list" where
  "col_names df = map fst (columns df)"

text \<open>\<^verbatim>\<open>col in df.columns\<close>, \<^verbatim>\<open>df[col]\<close> (of a column that is there) and \<^verbatim>\<open>df[col] = values\<close>:
  an assignment replaces the column in place when the name exists and appends it otherwise.\<close>

definition has_col :: "frame \<Rightarrow> string \<Rightarrow> bool" where
  "has_col df c = (c \<in> set (col_names df))"

definition get_col :: "frame \<Rightarrow> string \<Rightarrow> column option" where
  "get_col df c = map_of (columns df) c"

definition set_col :: "string \<Rightarrow> column \<Rightarrow> frame \<Rightarrow> frame" where
  "set_col c v df = df\<lparr>columns := AList.update c v (columns df)\<rparr>"

fun col_len :: "column \<Rightarrow> nat" where
  "col_len (NumCol xs) = length xs"
| "col_len (ObjCol xs) = length xs"

text \<open>The shape invariant pandas keeps: distinct column names, every column as long as the
  index.\<close>

definition wf_frame :: "frame \<Rightarrow> bool" where
  "wf_frame df = (distinct (col_names df) \<and> (\<forall>(n, c) \<in> set (columns df). col_len c = len df))"

section \<open>Cleaner\<close>

subsection \<open>Forward and backward fill\<close>

fun ffill_from :: "'a option \<Rightarrow> 'a option list \<Rightarrow> 'a option list" where
  "ffill_from prev [] = []"
| "ffill_from prev (None # xs) = prev # ffill_from prev xs"
| "ffill_from prev (Some v # xs) = Some v # ffill_from (Some v) xs"

definition ffill :: "'a option list \<Rightarrow> 'a option list" where
  "ffill xs = ffill_from None xs"

definition bfill :: "'a option list \<Rightarrow> 'a option list" where
  "bfill xs = rev (ffill (rev xs))"

fun col_fill :: "column \<Rightarrow> column" where
  "col_fill (NumCol xs) = NumCol (bfill (ffill xs))"
| "col_fill (ObjCol xs) = ObjCol (bfill (ffill xs))"

definition ohlcv_cols :: "string list" where
  "ohlcv_cols = [''open'', ''high'', ''low'', ''close'', ''volume'']"

text \<open>The loop \<^verbatim>\<open>for col in ohlcv_cols: if col in df.columns: df[col] = df[col].ffill().bfill()\<close>.\<close>

definition fill_step :: "string \<Rightarrow> frame \<Rightarrow> frame" where
  "fill_step c df = (case get_col df c of None \<Rightarrow> df | Some v \<Rightarrow> set_col c (col_fill v) df)"

definition fill_cols :: "frame \<Rightarrow> frame" where
  "fill_cols df = fold fill_step ohlcv_cols df"

subsection \<open>Dropping the rows in which every price and volume cell is missing\<close>

fun notna :: "column \<Rightarrow> bool list" where
  "notna (NumCol xs) = map (\<lambda>x. x \<noteq> None) xs"
| "notna (ObjCol xs) = map (\<lambda>x. x \<noteq> None) xs"

text \<open>Row \<open>i\<close> is kept when some column of the subset has a value there
  (\<^verbatim>\<open>notna(agg_obj).any(axis=1)\<close>); with an empty subset no row is kept.\<close>

definition keep_mask :: "frame \<Rightarrow> string list \<Rightarrow> bool list" where
  "keep_mask df cs =
     map (\<lambda>i. \<exists>c \<in> set cs. case get_col df c of
                 None \<Rightarrow> False
               | Some v \<Rightarrow> i < length (notna v) \<and> notna v ! i)
       [0 ..< len df]"

definition select_mask :: "bool list \<Rightarrow> 'a list \<Rightarrow> 'a list" where
  "select_mask m xs = map fst (filter snd (zip xs m))"

fun col_select :: "bool list \<Rightarrow> column \<Rightarrow> column" where
  "col_select m (NumCol xs) = NumCol (select_mask m xs)"
| "col_select m (ObjCol xs) = ObjCol (select_mask m xs)"

fun index_select :: "bool list \<Rightarrow> pd_index \<Rightarrow> pd_index" where
  "index_select m (DatetimeIndex ds) = DatetimeIndex (select_mask m ds)"
| "index_select m (OtherIndex ks) = OtherIndex (select_mask m ks)"

definition select_rows :: "bool list \<Rightarrow> frame \<Rightarrow> frame" where
  "select_rows m df =
     \<lparr>index = index_select m (index df),
      columns = map (\<lambda>(n, c). (n, col_select m c)) (columns df)\<rparr>"

definition dropna_all :: "frame \<Rightarrow> frame" where
  "dropna_all df = select_rows (keep_mask df (filter (has_col df) ohlcv_cols)) df"

subsection \<open>Quartiles and the Tukey fence\<close>

text \<open>\<^verbatim>\<open>Series.quantile(q)\<close>: the missing entries are skipped, the rest sorted, and the value at
  the fractional position \<open>q \<cdot> (n - 1)\<close> is interpolated linearly between its two neighbours;
  a column with no number has quantile not-a-number.\<close>

definition quantile :: "real \<Rightarrow> cell list \<Rightarrow> cell" where
  "quantile q xs =
     (let vs = sort (map the (filter (\<lambda>x. x \<noteq> None) xs)); n = length vs
      in if n = 0 then None
         else let pos = q * real (n - 1);
                  lo = nat \<lfloor>pos\<rfloor>;
                  hi = min (lo + 1) (n - 1)
              in Some (vs ! lo + (vs ! hi - vs ! lo) * (pos - real lo)))"

text \<open>Arithmetic and comparison with not-a-number: an operation on a missing operand is
  missing, a comparison with a missing operand is false.\<close>

definition nan_lt :: "cell \<Rightarrow> cell \<Rightarrow> bool" where
  "nan_lt a b = (case (a, b) of (Some x, Some y) \<Rightarrow> x < y | _ \<Rightarrow> False)"

definition nan_sub :: "cell \<Rightarrow> cell \<Rightarrow> cell" where
  "nan_sub a b = (case (a, b) of (Some x, Some y) \<Rightarrow> Some (x - y) | _ \<Rightarrow> None)"

definition nan_add :: "cell \<Rightarrow> cell \<Rightarrow> cell" where
  "nan_add a b = (case (a, b) of (Some x, Some y) \<Rightarrow> Some (x + y) | _ \<Rightarrow> None)"

definition nan_mul :: "cell \<Rightarrow> cell \<Rightarrow> cell" where
  "nan_mul a b = (case (a, b) of (Some x, Some y) \<Rightarrow> Some (x * y) | _ \<Rightarrow> None)"

definition IQR :: "cell list \<Rightarrow> cell" where
  "IQR xs = nan_sub (quantile (3/4) xs) (quantile (1/4) xs)"

definition lower_bound :: "cell list \<Rightarrow> cell" where
  "lower_bound xs = nan_sub (quantile (1/4) xs) (nan_mul (Some (3/2)) (IQR xs))"

definition upper_bound :: "cell list \<Rightarrow> cell" where
  "upper_bound xs = nan_add (quantile (3/4) xs) (nan_mul (Some (3/2)) (IQR xs))"

text \<open>The two \<^verbatim>\<open>np.where\<close> passes, guarded by \<^verbatim>\<open>if IQR > 0\<close>.\<close>

definition clip_values :: "cell list \<Rightarrow> cell list" where
  "clip_values xs =
     (if nan_lt (Some 0) (IQR xs)
      then let lo = lower_bound xs; hi = upper_bound xs;
               ys = map (\<lambda>x. if nan_lt x lo then lo else x) xs
           in map (\<lambda>y. if nan_lt hi y then hi else y) ys
      else xs)"

text \<open>One iteration of \<^verbatim>\<open>for col in ['close', 'volume']\<close>. The quantile of a column of strings
  raises a \<^verbatim>\<open>TypeError\<close>.\<close>

definition clip_col :: "string \<Rightarrow> frame \<Rightarrow> exn + frame" where
  "clip_col c df =
     (if has_col df c \<and> len df > 0
      then (case get_col df c of
              Some (NumCol xs) \<Rightarrow> Inr (set_col c (NumCol (clip_values xs)) df)
            | _ \<Rightarrow> Inl TypeError)
      else Inr df)"

definition clip_outliers :: "frame \<Rightarrow> exn + frame" where
  "clip_outliers df = bind_exn (clip_col ''close'' df) (clip_col ''volume'')"

subsection \<open>Sorting by the index\<close>

text \<open>\<^verbatim>\<open>df.sort_index(inplace=True)\<close>: the rows are reordered by ascending index label; rows
  with equal labels keep their order.\<close>

definition sort_by :: "('k::linorder) list \<Rightarrow> 'a list \<Rightarrow> 'a list" where
  "sort_by ks xs = map snd (sort_key fst (zip ks xs))"

fun col_sort_by :: "('k::linorder) list \<Rightarrow> column \<Rightarrow> column" where
  "col_sort_by ks (NumCol xs) = NumCol (sort_by ks xs)"
| "col_sort_by ks (ObjCol xs) = ObjCol (sort_by ks xs)"

definition sort_index :: "frame \<Rightarrow> frame" where
  "sort_index df =
     (case index df of
        DatetimeIndex ds \<Rightarrow>
          \<lparr>index = DatetimeIndex (sort ds),
           columns = map (\<lambda>(n, c). (n, col_sort_by ds c)) (columns df)\<rparr>
      | OtherIndex ks \<Rightarrow>
          \<lparr>index = OtherIndex (sort ks),
           columns = map (\<lambda>(n, c). (n, col_sort_by ks c)) (columns df)\<rparr>)"

subsection \<open>\<^verbatim>\<open>clean_data\<close>\<close>

text \<open>The state of the frame when the clipping loop starts: after the fill and the row drop.\<close>

definition pre_clip :: "frame \<Rightarrow> frame" where
  "pre_clip df = dropna_all (fill_cols df)"

definition clean_data :: "frame \<Rightarrow> exn + frame" where
  "clean_data df =
     (if is_empty df then Inr df
      else bind_exn (clip_outliers (pre_clip df)) (\<lambda>d. Inr (sort_index d)))"

section \<open>FeatureEngineer\<close>

subsection \<open>Series arithmetic\<close>

text \<open>Division and negation with not-a-number. The model has no infinities: where an IEEE
  division of a nonzero number by zero gives an infinity, \<open>nan_div\<close> gives not-a-number. In
  \<open>transform_data\<close> a zero divisor can only occur in \<open>pct_change\<close> (a close of 0), that is
  in the values of \<open>Daily_Return\<close> and \<open>Volatility_20D\<close>; no statement below is about them.\<close>

definition nan_div :: "cell \<Rightarrow> cell \<Rightarrow> cell" where
  "nan_div a b =
     (case (a, b) of (Some x, Some y) \<Rightarrow> if y = 0 then None else Some (x / y) | _ \<Rightarrow> None)"

definition nan_neg :: "cell \<Rightarrow> cell" where
  "nan_neg a = map_option uminus a"

definition non_nan :: "cell list \<Rightarrow> real list" where
  "non_nan xs = map the (filter (\<lambda>x. x \<noteq> None) xs)"

text \<open>\<^verbatim>\<open>rolling(window=w, min_periods=1)\<close>: the window of row \<open>i\<close> holds the rows
  \<open>i - w + 1, \<dots>, i\<close> that exist; an aggregate over it skips missing entries.\<close>

definition window :: "nat \<Rightarrow> nat \<Rightarrow> 'a list \<Rightarrow> 'a list" where
  "window w i xs = drop (Suc i - w) (take (Suc i) xs)"

definition rolling :: "nat \<Rightarrow> (cell list \<Rightarrow> cell) \<Rightarrow> cell list \<Rightarrow> cell list" where
  "rolling w f xs = map (\<lambda>i. f (window w i xs)) [0 ..< length xs]"

text \<open>The mean needs one observation (\<^verbatim>\<open>min_periods=1\<close>), the sample standard deviation
  two (one degree of freedom is lost).\<close>

definition mean :: "cell list \<Rightarrow> cell" where
  "mean ws =
     (let vs = non_nan ws
      in if length vs \<ge> 1 then Some (sum_list vs / real (length vs)) else None)"

definition std :: "cell list \<Rightarrow> cell" where
  "std ws =
     (let vs = non_nan ws; n = length vs
      in if n < 2 then None
         else let m = sum_list vs / real n
              in Some (sqrt (sum_list (map (\<lambda>v. (v - m)\<^sup>2) vs) / real (n - 1))))"

text \<open>\<^verbatim>\<open>ewm(span=s, adjust=False).mean()\<close>: the recursion
  \<open>y\<^sub>t = ((1 - \<alpha>) y\<^sub>t\<^sub>-\<^sub>1 + \<alpha> x\<^sub>t)\<close> with \<open>\<alpha> = 2 / (s + 1)\<close>, started at the first observation. A missing
  \<open>x\<^sub>t\<close> repeats the last average and decays its weight once more, and the next
  observation is averaged with the weights renormalised.\<close>

fun ewm_from :: "real \<Rightarrow> cell \<Rightarrow> real \<Rightarrow> cell list \<Rightarrow> cell list" where
  "ewm_from \<alpha> weighted old_wt [] = []"
| "ewm_from \<alpha> None old_wt (cur # xs) = cur # ewm_from \<alpha> cur old_wt xs"
| "ewm_from \<alpha> (Some w) old_wt (None # xs) =
     Some w # ewm_from \<alpha> (Some w) (old_wt * (1 - \<alpha>)) xs"
| "ewm_from \<alpha> (Some w) old_wt (Some cur # xs) =
     (let ow = old_wt * (1 - \<alpha>);
          w' = (if w \<noteq> cur then (ow * w + \<alpha> * cur) / (ow + \<alpha>) else w)
      in Some w' # ewm_from \<alpha> (Some w') 1 xs)"

definition ewm_mean :: "nat \<Rightarrow> cell list \<Rightarrow> cell list" where
  "ewm_mean sp xs =
     (case xs of [] \<Rightarrow> [] | x # rest \<Rightarrow> x # ewm_from (2 / (real sp + 1)) x 1 rest)"

text \<open>\<^verbatim>\<open>diff()\<close> and \<^verbatim>\<open>pct_change()\<close>: row \<open>i\<close> against row \<open>i - 1\<close>; the first row has no
  predecessor. \<^verbatim>\<open>pct_change\<close> forward-fills before it divides (its default in pandas 2).\<close>

definition diff :: "cell list \<Rightarrow> cell list" where
  "diff xs = (case xs of [] \<Rightarrow> [] | x # rest \<Rightarrow> None # map2 nan_sub rest xs)"

definition pct_change :: "cell list \<Rightarrow> cell list" where
  "pct_change xs =
     (case ffill xs of
        [] \<Rightarrow> []
      | x # rest \<Rightarrow>
          None # map2 (\<lambda>cur prev. nan_sub (nan_div cur prev) (Some 1)) rest (x # rest))"

subsection \<open>The indicators\<close>

definition bollinger :: "cell list \<Rightarrow> frame \<Rightarrow> frame" where
  "bollinger cl df =
     (let middle = rolling 20 mean cl;
          stddev = rolling 20 std cl;
          d1 = set_col ''BB_Middle'' (NumCol middle) df;
          d2 = set_col ''BB_StdDev'' (NumCol stddev) d1;
          d3 = set_col ''BB_Upper''
                 (NumCol (map2 nan_add middle (map (\<lambda>s. nan_mul s (Some 2)) stddev))) d2
      in set_col ''BB_Lower''
           (NumCol (map2 nan_sub middle (map (\<lambda>s. nan_mul s (Some 2)) stddev))) d3)"

text \<open>\<^verbatim>\<open>delta.where(delta > 0, 0)\<close> keeps the positive deltas and puts 0 elsewhere, also where
  the delta is not-a-number; \<^verbatim>\<open>loss.where(loss != 0, np.nan)\<close> turns a zero loss into
  not-a-number, which the division and the final subtraction propagate.\<close>

definition RSI :: "cell list \<Rightarrow> cell list" where
  "RSI cl =
     (let delta = diff cl;
          gain = rolling 14 mean (map (\<lambda>d. if nan_lt (Some 0) d then d else Some 0) delta);
          loss = rolling 14 mean
                   (map (\<lambda>d. nan_neg (if nan_lt d (Some 0) then d else Some 0)) delta);
          RS = map2 nan_div gain (map (\<lambda>l. if l \<noteq> Some 0 then l else None) loss)
      in map (\<lambda>rs. nan_sub (Some 100) (nan_div (Some 100) (nan_add (Some 1) rs))) RS)"

definition volatility :: "cell list \<Rightarrow> cell list" where
  "volatility daily = map (\<lambda>s. nan_mul s (Some (sqrt 252))) (rolling 20 std daily)"

subsection \<open>\<^verbatim>\<open>transform_data\<close>\<close>

text \<open>\<open>indicators\<close> is the body from \<open>SMA_10\<close> to \<open>Volatility_20D\<close>, given the close
  column; the last step subtracts the open column when there is one.
  Every indicator is computed from the close column, which no assignment changes. A close
  column of strings makes the first aggregate raise: the rolling mean (from 10 rows on) a
  \<^verbatim>\<open>DataError\<close>, the percentage change a \<^verbatim>\<open>TypeError\<close>; so does subtracting an open column
  of strings.\<close>

definition indicators :: "cell list \<Rightarrow> frame \<Rightarrow> frame" where
  "indicators cl df =
     (let n = len df;
          d1 = (if n \<ge> 10 then set_col ''SMA_10'' (NumCol (rolling 10 mean cl)) df else df);
          d2 = (if n \<ge> 50 then set_col ''SMA_50'' (NumCol (rolling 50 mean cl)) d1 else d1);
          d3 = (if n \<ge> 10 then set_col ''EMA_10'' (NumCol (ewm_mean 10 cl)) d2 else d2);
          d4 = (if n \<ge> 50 then set_col ''EMA_50'' (NumCol (ewm_mean 50 cl)) d3 else d3);
          d5 = (if n \<ge> 20 then bollinger cl d4 else d4);
          d6 = (if n \<ge> 14 then set_col ''RSI'' (NumCol (RSI cl)) d5 else d5);
          daily = pct_change cl;
          d7 = set_col ''Daily_Return'' (NumCol daily) d6
      in if n \<ge> 20 then set_col ''Volatility_20D'' (NumCol (volatility daily)) d7 else d7)"

definition transform_data :: "frame \<Rightarrow> exn + frame" where
  "transform_data df =
     (if is_empty df then Inr df
      else if \<not> has_col df ''close'' then Inr df
      else case get_col df ''close'' of
        Some (NumCol cl) \<Rightarrow>
          let d8 = indicators cl df
          in if has_col d8 ''open''
             then (case get_col d8 ''open'' of
                     Some (NumCol op) \<Rightarrow>
                       Inr (set_col ''Close_Open_Diff'' (NumCol (map2 nan_sub cl op)) d8)
                   | _ \<Rightarrow> Inl TypeError)
             else Inr d8
      | _ \<Rightarrow> Inl (if len df \<ge> 10 then DataError else TypeError))"

section \<open>The world outside the pipeline\<close>

text \<open>
  The functions the pipeline calls but does not define are parameters of the model, collected
  in an environment:
  \<^item> \<open>download\<close> is \<^verbatim>\<open>yf.download\<close>; its last argument numbers the calls made for one
    ticker, so that the provider may answer a retry differently. It raises or returns a raw
    table.
  \<^item> \<open>to_numeric_str\<close> is what \<^verbatim>\<open>pd.to_numeric(errors='coerce')\<close> makes of a string, and
    \<open>to_datetime\<close> what \<^verbatim>\<open>pd.to_datetime\<close> makes of an index that is not a datetime index.
  \<^item> \<open>connect\<close> tells whether \<^verbatim>\<open>sqlite3.connect\<close> raises for a file name; \<open>to_sql_error\<close>
    whether the engine refuses an append (for instance a table without one of the frame's
    columns); \<open>read_sql_query\<close> is the engine answering a query text.
  A database file is a map from table names to the frames appended to the table, in order;
  the world maps file names to databases. A refused append is taken to leave the table as it
  was.
\<close>

datatype col_labels = Index "string list" | MultiIndex "string list list"

record raw_frame =
  raw_index :: pd_index
  raw_labels :: col_labels
  raw_data :: "column list"

type_synonym database = "string \<Rightarrow> frame list"

type_synonym world = "string \<Rightarrow> database"

record env =
  download :: "string \<Rightarrow> string \<Rightarrow> string \<Rightarrow> nat \<Rightarrow> exn + raw_frame"
  to_numeric_str :: "string \<Rightarrow> cell"
  to_datetime :: "int list \<Rightarrow> exn + date list"
  connect :: "string \<Rightarrow> exn option"
  to_sql_error :: "database \<Rightarrow> string \<Rightarrow> frame \<Rightarrow> exn option"
  read_sql_query :: "database \<Rightarrow> string \<Rightarrow> exn + frame"

text \<open>Frames are objects: a function that is handed a frame is handed a reference, and an
  assignment to a column changes the object the caller holds. Where this matters the model
  passes an object store and an address.\<close>

type_synonym heap = "nat \<Rightarrow> frame"

text \<open>A store that holds the frame \<open>df\<close> at address 0 and nothing else of interest; a world
  without any table.\<close>

definition alloc :: "frame \<Rightarrow> heap" where
  "alloc df = (\<lambda>_. empty_frame)(0 := df)"

definition no_files :: world where
  "no_files = (\<lambda>db table. [])"

section \<open>Ingestor\<close>

text \<open>\<^verbatim>\<open>col.lower().replace(' ', '_')\<close>, on ASCII letters.\<close>

definition lower_char :: "char \<Rightarrow> char" where
  "lower_char c =
     (let n = (of_char c :: nat) in if 65 \<le> n \<and> n \<le> 90 then char_of (n + 32) else c)"

definition normalise :: "string \<Rightarrow> string" where
  "normalise col = map (\<lambda>c. if c = CHR '' '' then CHR ''_'' else c) (map lower_char col)"

text \<open>A multi-level header is collapsed to its first level.\<close>

fun level0 :: "col_labels \<Rightarrow> string list" where
  "level0 (Index ns) = ns"
| "level0 (MultiIndex ts) = map (\<lambda>t. case t of [] \<Rightarrow> [] | n # _ \<Rightarrow> n) ts"

definition raw_empty :: "raw_frame \<Rightarrow> bool" where
  "raw_empty raw = (index_len (raw_index raw) = 0 \<or> level0 (raw_labels raw) = [])"

definition required_ohlcv_cols :: "string list" where
  "required_ohlcv_cols = [''open'', ''high'', ''low'', ''close'', ''volume'']"

definition missing_cols :: "raw_frame \<Rightarrow> string list" where
  "missing_cols raw =
     filter (\<lambda>col. col \<notin> set (map normalise (level0 (raw_labels raw)))) required_ohlcv_cols"

fun to_numeric :: "env \<Rightarrow> column \<Rightarrow> column" where
  "to_numeric env (NumCol xs) = NumCol xs"
| "to_numeric env (ObjCol xs) =
     NumCol (map (\<lambda>x. case x of None \<Rightarrow> None | Some s \<Rightarrow> to_numeric_str env s) xs)"

fun index_to_datetime :: "env \<Rightarrow> pd_index \<Rightarrow> exn + date list" where
  "index_to_datetime env (DatetimeIndex ds) = Inr ds"
| "index_to_datetime env (OtherIndex ks) = to_datetime env ks"

text \<open>The body of the \<^verbatim>\<open>try\<close> of one attempt: \<open>Inr\<close> is a \<^verbatim>\<open>return\<close>, \<open>Inl\<close> an exception
  on its way to the handler. Selecting the five required names keeps every column that
  carries one of them; if a name occurs twice, \<^verbatim>\<open>df[col]\<close> is a table and
  \<^verbatim>\<open>pd.to_numeric\<close> raises a \<^verbatim>\<open>TypeError\<close>.\<close>

definition ingest_attempt :: "env \<Rightarrow> string \<Rightarrow> string \<Rightarrow> string \<Rightarrow> nat \<Rightarrow> exn + frame" where
  "ingest_attempt env ticker sd ed attempt =
     bind_exn (download env ticker sd ed attempt) (\<lambda>raw.
       if raw_empty raw then Inr empty_frame
       else if missing_cols raw \<noteq> [] then Inr empty_frame
       else
         let cols = zip (map normalise (level0 (raw_labels raw))) (raw_data raw);
             sel = concat (map (\<lambda>col. filter (\<lambda>(n, v). n = col) cols) required_ohlcv_cols)
         in bind_exn (index_to_datetime env (raw_index raw)) (\<lambda>ds.
              if \<not> distinct (map fst sel) then Inl TypeError
              else Inr \<lparr>index = DatetimeIndex ds,
                        columns = map (\<lambda>(n, v). (n, to_numeric env v)) sel
                                  @ [(''ticker'', ObjCol (replicate (length ds) (Some ticker)))]\<rparr>))"

text \<open>The loop \<^verbatim>\<open>for attempt in range(retry_count)\<close>. The second component counts the calls
  of the provider.\<close>

fun ingest_loop :: "env \<Rightarrow> string \<Rightarrow> string \<Rightarrow> string \<Rightarrow> nat \<Rightarrow> nat list \<Rightarrow> frame \<times> nat" where
  "ingest_loop env ticker sd ed retry_count [] = (empty_frame, 0)"
| "ingest_loop env ticker sd ed retry_count (attempt # rest) =
     (case ingest_attempt env ticker sd ed attempt of
        Inr df \<Rightarrow> (df, 1)
      | Inl e \<Rightarrow>
          if Suc attempt = retry_count then (empty_frame, 1)
          else (let (df, calls) = ingest_loop env ticker sd ed retry_count rest
                in (df, Suc calls)))"

definition ingest_data :: "env \<Rightarrow> string \<Rightarrow> string \<Rightarrow> string \<Rightarrow> nat \<Rightarrow> frame \<times> nat" where
  "ingest_data env ticker sd ed retry_count =
     ingest_loop env ticker sd ed retry_count [0 ..< retry_count]"

section \<open>Validator\<close>

definition assert :: "bool \<Rightarrow> exn + unit" where
  "assert b = (if b then Inr () else Inl AssertionError)"

fun for_each :: "('a \<Rightarrow> exn + unit) \<Rightarrow> 'a list \<Rightarrow> exn + unit" where
  "for_each f [] = Inr ()"
| "for_each f (x # xs) = bind_exn (f x) (\<lambda>_. for_each f xs)"

definition essential_cols :: "string list" where
  "essential_cols = [''open'', ''high'', ''low'', ''close'', ''volume'', ''ticker'']"

definition numeric_cols :: "string list" where
  "numeric_cols = [''open'', ''high'', ''low'', ''close'', ''volume'']"

fun is_numeric_dtype :: "column \<Rightarrow> bool" where
  "is_numeric_dtype (NumCol xs) = True"
| "is_numeric_dtype (ObjCol xs) = False"

fun is_datetime_index :: "pd_index \<Rightarrow> bool" where
  "is_datetime_index (DatetimeIndex ds) = True"
| "is_datetime_index (OtherIndex ks) = False"

text \<open>\<^verbatim>\<open>df[col]\<close> raises a \<^verbatim>\<open>KeyError\<close> for a name that is not there; \<^verbatim>\<open>(s > 0).all()\<close>
  raises a \<^verbatim>\<open>TypeError\<close> on strings and is false at a missing entry.\<close>

definition getitem :: "frame \<Rightarrow> string \<Rightarrow> exn + column" where
  "getitem df c = (case get_col df c of None \<Rightarrow> Inl KeyError | Some v \<Rightarrow> Inr v)"

fun all_positive :: "column \<Rightarrow> exn + bool" where
  "all_positive (NumCol xs) = Inr (list_all (\<lambda>x. nan_lt (Some 0) x) xs)"
| "all_positive (ObjCol xs) = Inl TypeError"

text \<open>\<^verbatim>\<open>df[col].isnull().sum() / len(df)\<close>. The comparison with the double 0.1 agrees with the
  exact comparison with 1/10 for every series of fewer than \<open>2\<^sup>5\<^sup>0\<close> rows.\<close>

definition nan_percentage :: "frame \<Rightarrow> column \<Rightarrow> real" where
  "nan_percentage df v = real (length (filter (\<lambda>b. \<not> b) (notna v))) / real (len df)"

definition validate_checks :: "frame \<Rightarrow> exn + unit" where
  "validate_checks df =
     bind_exn (assert (\<not> is_empty df)) (\<lambda>_.
     bind_exn (for_each (\<lambda>col. assert (has_col df col)) essential_cols) (\<lambda>_.
     bind_exn (for_each (\<lambda>col. if has_col df col
                                then bind_exn (getitem df col) (\<lambda>v. assert (is_numeric_dtype v))
                                else Inr ()) numeric_cols) (\<lambda>_.
     bind_exn (assert (is_datetime_index (index df))) (\<lambda>_.
     bind_exn (bind_exn (bind_exn (getitem df ''close'') all_positive) assert) (\<lambda>_.
     for_each (\<lambda>col. if has_col df col
                      then bind_exn (getitem df col) (\<lambda>v. assert (nan_percentage df v < 1 / 10))
                      else Inr ()) [''close'', ''volume''])))))"

text \<open>The two handlers: \<^verbatim>\<open>except AssertionError\<close> and \<^verbatim>\<open>except Exception\<close> both return
  \<^verbatim>\<open>False\<close>.\<close>

definition validate_handler :: "exn + unit \<Rightarrow> exn + bool" where
  "validate_handler r =
     (case r of
        Inr _ \<Rightarrow> Inr True
      | Inl e \<Rightarrow> if e = AssertionError then Inr False else Inr False)"

definition validate_pipeline :: "heap \<Rightarrow> nat \<Rightarrow> heap \<times> (exn + bool)" where
  "validate_pipeline h r = (h, validate_handler (validate_checks (h r)))"

section \<open>Store\<close>

fun year :: "date \<Rightarrow> nat" where "year (y, m, d) = y"

fun month :: "date \<Rightarrow> nat" where "month (y, m, d) = m"

text \<open>\<^verbatim>\<open>store_data\<close>. The connection is opened first, inside the \<^verbatim>\<open>try\<close>; both handlers
  only print. \<^verbatim>\<open>df.index.year\<close> raises an \<^verbatim>\<open>AttributeError\<close> on an index that is not a
  datetime index, before anything is assigned. The two assignments change the caller's
  object; the append comes after them.\<close>

definition store_data :: "env \<Rightarrow> heap \<Rightarrow> nat \<Rightarrow> string \<Rightarrow> string \<Rightarrow> world \<Rightarrow> heap \<times> world" where
  "store_data env h r db_name table_name w =
     (if is_empty (h r) then (h, w)
      else case connect env db_name of
        Some e \<Rightarrow> (h, w)
      | None \<Rightarrow>
          (case index (h r) of
             OtherIndex ks \<Rightarrow> (h, w)
           | DatetimeIndex ds \<Rightarrow>
               let d1 = set_col ''year'' (NumCol (map (\<lambda>d. Some (real (year d))) ds)) (h r);
                   d2 = set_col ''month'' (NumCol (map (\<lambda>d. Some (real (month d))) ds)) d1;
                   h' = h(r := d2)
               in case to_sql_error env (w db_name) table_name d2 of
                    Some e \<Rightarrow> (h', w)
                  | None \<Rightarrow>
                      (h', w(db_name := (w db_name)(table_name := w db_name table_name @ [d2])))))"

text \<open>How Python prints an integer in an f-string.\<close>

definition digit_char :: "nat \<Rightarrow> char" where
  "digit_char d = ''0123456789'' ! (d mod 10)"

fun str_nat :: "nat \<Rightarrow> string" where
  "str_nat n = (if n < 10 then [digit_char n] else str_nat (n div 10) @ [digit_char (n mod 10)])"

definition str_int :: "int \<Rightarrow> string" where
  "str_int i = (if i < 0 then ''-'' @ str_nat (nat (- i)) else str_nat (nat i))"

text \<open>\<^verbatim>\<open>retrieve_data\<close>. An argument left out is \<^verbatim>\<open>None\<close>; \<^verbatim>\<open>if ticker:\<close> is false for
  \<^verbatim>\<open>None\<close> and for the empty string, \<^verbatim>\<open>if year:\<close> for \<^verbatim>\<open>None\<close> and for 0.\<close>

definition truthy_str :: "string option \<Rightarrow> bool" where
  "truthy_str s = (case s of None \<Rightarrow> False | Some v \<Rightarrow> v \<noteq> [])"

definition truthy_int :: "int option \<Rightarrow> bool" where
  "truthy_int i = (case i of None \<Rightarrow> False | Some v \<Rightarrow> v \<noteq> 0)"

definition conditions :: "string option \<Rightarrow> int option \<Rightarrow> int option \<Rightarrow> string list" where
  "conditions ticker yr mo =
     (if truthy_str ticker then [''ticker = '' @ [CHR 0x27] @ the ticker @ [CHR 0x27]] else [])
     @ (if truthy_int yr then [''year = '' @ str_int (the yr)] else [])
     @ (if truthy_int mo then [''month = '' @ str_int (the mo)] else [])"

fun join :: "string \<Rightarrow> string list \<Rightarrow> string" where
  "join sep [] = []"
| "join sep [x] = x"
| "join sep (x # y # ys) = x @ sep @ join sep (y # ys)"

definition query :: "string \<Rightarrow> string option \<Rightarrow> int option \<Rightarrow> int option \<Rightarrow> string" where
  "query table_name ticker yr mo =
     ''SELECT * FROM '' @ table_name
     @ (if conditions ticker yr mo \<noteq> [] then '' WHERE '' @ join '' AND '' (conditions ticker yr mo)
        else [])
     @ '' ORDER BY date;''"

definition retrieve_data ::
  "env \<Rightarrow> world \<Rightarrow> string \<Rightarrow> string \<Rightarrow> string option \<Rightarrow> int option \<Rightarrow> int option \<Rightarrow> frame" where
  "retrieve_data env w db_name table_name ticker yr mo =
     (case connect env db_name of
        Some e \<Rightarrow> empty_frame
      | None \<Rightarrow>
          (case read_sql_query env (w db_name) (query table_name ticker yr mo) of
             Inl e \<Rightarrow> empty_frame
           | Inr df \<Rightarrow> df))"

section \<open>Orchestrator\<close>

definition TICKERS :: "string list" where
  "TICKERS = [''AAPL'', ''MSFT'', ''GOOG'', ''AMZN'', ''TSLA'', ''NVDA'', ''JPM'', ''V'', ''PG'', ''KO'']"

definition START_DATE :: string where
  "START_DATE = ''2020-01-01''"

definition DB_NAME :: string where
  "DB_NAME = ''ohlc_data.db''"

text \<open>The stages of one ticker up to the validation. \<open>Inr (Some df)\<close>: every stage passed and
  \<open>df\<close> is the validated frame; \<open>Inr None\<close>: a stage returned an empty frame or the validation
  returned false, and the loop \<^verbatim>\<open>continue\<close>s; \<open>Inl e\<close>: a stage raised. The copies handed to
  the cleaner and to the feature engineer are fresh objects that nothing else refers to, so
  the stages are functions of the frame values; the validator and the store get the
  transformed frame as an object.\<close>

definition stages :: "env \<Rightarrow> string \<Rightarrow> string \<Rightarrow> exn + frame option" where
  "stages env ed ticker =
     (let raw_df = fst (ingest_data env ticker START_DATE ed 3)
      in if is_empty raw_df then Inr None
         else bind_exn (clean_data raw_df) (\<lambda>cleaned_df.
           if is_empty cleaned_df then Inr None
           else bind_exn (transform_data cleaned_df) (\<lambda>transformed_df.
             if is_empty transformed_df then Inr None
             else bind_exn (snd (validate_pipeline (alloc transformed_df) 0))
                    (\<lambda>ok. if \<not> ok then Inr None else Inr (Some transformed_df)))))"

text \<open>The body of the \<^verbatim>\<open>try\<close> for one ticker, on the state of the run: the world and the
  list \<^verbatim>\<open>successful_tickers\<close>.\<close>

definition ticker_body :: "env \<Rightarrow> string \<Rightarrow> world \<times> string list \<Rightarrow> string \<Rightarrow> exn + world \<times> string list" where
  "ticker_body env ed st ticker =
     bind_exn (stages env ed ticker) (\<lambda>res.
       case res of
         None \<Rightarrow> Inr st
       | Some transformed_df \<Rightarrow>
           let (h, w) = store_data env (alloc transformed_df) 0
                          DB_NAME ''ohlc_processed_data'' (fst st)
           in Inr (w, snd st @ [ticker]))"

text \<open>\<^verbatim>\<open>except Exception: ... continue\<close>.\<close>

definition process_ticker :: "env \<Rightarrow> string \<Rightarrow> world \<times> string list \<Rightarrow> string \<Rightarrow> world \<times> string list" where
  "process_ticker env ed st ticker =
     (case ticker_body env ed st ticker of Inl e \<Rightarrow> st | Inr st' \<Rightarrow> st')"

definition run_loop :: "env \<Rightarrow> string \<Rightarrow> world \<times> string list \<Rightarrow> string list \<Rightarrow> world \<times> string list" where
  "run_loop env ed st tickers = foldl (process_ticker env ed) st tickers"

text \<open>\<^verbatim>\<open>run_data_pipeline\<close>: the database file is removed, the tickers are processed, and the
  run reports the successful and the failed ones (the sample query at the end only prints).
  \<open>ed\<close> is the end date, the day of the run.\<close>

definition run_data_pipeline :: "env \<Rightarrow> string \<Rightarrow> world \<Rightarrow> world \<times> string list \<times> string list" where
  "run_data_pipeline env ed w =
     (let (w', successful_tickers) = run_loop env ed (w(DB_NAME := (\<lambda>_. [])), []) TICKERS;
          failed_tickers = filter (\<lambda>t. t \<notin> set successful_tickers) TICKERS
      in (w', successful_tickers, failed_tickers))"
section \<open>Vocabulary of the statements\<close>

text \<open>A column is \<open>filled\<close> when it has no missing entry or nothing but missing entries: the
  shape every column has after a forward fill followed by a backward fill.\<close>

definition filled :: "'a option list \<Rightarrow> bool" where
  "filled xs = (None \<notin> set xs \<or> (\<forall>x\<in>set xs. x = None))"

text \<open>A cell lies within the Tukey fence computed from the column \<open>xs\<close>: it is a number, both
  bounds are numbers, and it lies between them.\<close>

definition within_fence :: "cell list \<Rightarrow> cell \<Rightarrow> bool" where
  "within_fence xs y =
     (case (y, lower_bound xs, upper_bound xs) of
        (Some v, Some lo, Some hi) \<Rightarrow> lo \<le> v \<and> v \<le> hi
      | _ \<Rightarrow> False)"

subsection \<open>Cleaned frames\<close>

text \<open>What every non-empty result of \<open>clean_data\<close> satisfies: it is well shaped, its index
  is ascending, each price and volume column is filled, one of them has no missing entry if
  there is a row at all, and close and volume are numeric then.\<close>

fun col_filled :: "column \<Rightarrow> bool" where
  "col_filled (NumCol xs) = filled xs"
| "col_filled (ObjCol xs) = filled xs"

definition col_complete :: "column \<Rightarrow> bool" where
  "col_complete v = (\<forall>b \<in> set (notna v). b)"

fun col_clip :: "column \<Rightarrow> column" where
  "col_clip (NumCol xs) = NumCol (clip_values xs)"
| "col_clip (ObjCol xs) = ObjCol xs"

fun index_sorted :: "pd_index \<Rightarrow> bool" where
  "index_sorted (DatetimeIndex ds) = sorted ds"
| "index_sorted (OtherIndex ks) = sorted ks"

definition cleaned :: "frame \<Rightarrow> bool" where
  "cleaned s =
     (wf_frame s \<and> index_sorted (index s)
      \<and> (\<forall>c \<in> set ohlcv_cols. \<forall>v. get_col s c = Some v \<longrightarrow> col_filled v)
      \<and> (0 < len s \<longrightarrow> (\<exists>c \<in> set ohlcv_cols. \<exists>v. get_col s c = Some v \<and> col_complete v))
      \<and> (0 < len s \<longrightarrow> (\<forall>v. get_col s ''close'' = Some v \<longrightarrow> is_numeric_dtype v))
      \<and> (0 < len s \<longrightarrow> (\<forall>v. get_col s ''volume'' = Some v \<longrightarrow> is_numeric_dtype v)))"

subsection \<open>Example series\<close>

primrec days_from :: "nat \<Rightarrow> 'a list \<Rightarrow> date list" where
  "days_from k [] = []"
| "days_from k (x # xs) = (2020, 1, Suc k) # days_from (Suc k) xs"

definition ohlcv_frame :: "cell list \<Rightarrow> cell list \<Rightarrow> frame" where
  "ohlcv_frame cl vol =
     \<lparr>index = DatetimeIndex (days_from 0 cl),
      columns = [(''open'', NumCol cl), (''high'', NumCol cl), (''low'', NumCol cl),
                 (''close'', NumCol cl), (''volume'', NumCol vol),
                 (''ticker'', ObjCol (map (\<lambda>_. Some ''AAPL'') cl))]\<rparr>"

text \<open>Seven days with close 1, 5, 5, 5, 5, 5, 9 (both quartiles are 5) and no volume at all.\<close>

definition flat_close :: "cell list" where
  "flat_close = [Some 1, Some 5, Some 5, Some 5, Some 5, Some 5, Some 9]"

definition series_flat :: frame where
  "series_flat = ohlcv_frame flat_close [None, None, None, None, None, None, None]"

text \<open>Five days with one outlier in close; constant volume.\<close>

definition spike_close :: "cell list" where
  "spike_close = [Some 1, Some 2, Some 3, Some 4, Some 100]"

definition series_spike :: frame where
  "series_spike = ohlcv_frame spike_close [Some 10, Some 10, Some 10, Some 10, Some 10]"

definition series_spike_cleaned :: frame where
  "series_spike_cleaned =
     series_spike\<lparr>columns := AList.update ''close''
        (NumCol [Some 1, Some 2, Some 3, Some 4, Some 7]) (columns series_spike)\<rparr>"

text \<open>Four days whose first close is far below the others; constant volume.\<close>

definition dip_close :: "cell list" where
  "dip_close = [Some 0, Some 100, Some 100, Some 100]"

definition series_dip :: frame where
  "series_dip = ohlcv_frame dip_close [Some 10, Some 10, Some 10, Some 10]"

text \<open>Fourteen days of a close that rises by 2 and falls by 1 in turn.\<close>

definition zigzag_close :: "cell list" where
  "zigzag_close = [Some 10, Some 11, Some 10, Some 12, Some 11, Some 13, Some 12, Some 14,
                   Some 13, Some 15, Some 14, Some 16, Some 15, Some 17]"

definition series_zigzag :: frame where
  "series_zigzag = ohlcv_frame zigzag_close zigzag_close"

definition series_dip_once :: frame where
  "series_dip_once =
     series_dip\<lparr>columns := AList.update ''close''
        (NumCol [Some (75 / 2), Some 100, Some 100, Some 100]) (columns series_dip)\<rparr>"

definition series_dip_twice :: frame where
  "series_dip_twice =
     series_dip\<lparr>columns := AList.update ''close''
        (NumCol [Some (975 / 16), Some 100, Some 100, Some 100]) (columns series_dip)\<rparr>"

subsection \<open>The relative strength index, in the words of the specification\<close>

text \<open>The one-step close delta of row \<open>i\<close> (none for the first row), its positive part and
  its negated negative part, and their means over the rows \<open>i - 13, \<dots>, i\<close> that exist.\<close>

definition delta_at :: "cell list \<Rightarrow> nat \<Rightarrow> cell" where
  "delta_at cl i = (if i = 0 then None else nan_sub (cl ! i) (cl ! (i - 1)))"

definition up_move :: "cell \<Rightarrow> real" where
  "up_move d = (case d of Some x \<Rightarrow> if 0 < x then x else 0 | None \<Rightarrow> 0)"

definition down_move :: "cell \<Rightarrow> real" where
  "down_move d = (case d of Some x \<Rightarrow> if x < 0 then - x else 0 | None \<Rightarrow> 0)"

definition avg_gain :: "cell list \<Rightarrow> nat \<Rightarrow> real" where
  "avg_gain cl i =
     sum_list (map (\<lambda>j. up_move (delta_at cl j)) [Suc i - 14 ..< Suc i]) / real (min (Suc i) 14)"

definition avg_loss :: "cell list \<Rightarrow> nat \<Rightarrow> real" where
  "avg_loss cl i =
     sum_list (map (\<lambda>j. down_move (delta_at cl j)) [Suc i - 14 ..< Suc i]) / real (min (Suc i) 14)"

definition rsi_spec :: "cell list \<Rightarrow> nat \<Rightarrow> cell" where
  "rsi_spec cl i =
     (if avg_loss cl i = 0 then None
      else Some (100 - 100 / (1 + avg_gain cl i / avg_loss cl i)))"

subsection \<open>The gating table of the specification\<close>

text \<open>The columns the specification lists for a series of \<open>L\<close> rows, each with its minimum
  length, \<open>Daily_Return\<close> always and \<open>Close_Open_Diff\<close> when there is an open column.\<close>

definition indicator_columns :: "nat \<Rightarrow> bool \<Rightarrow> string set" where
  "indicator_columns L has_open =
     (if 10 \<le> L then {''SMA_10'', ''EMA_10''} else {})
     \<union> (if 50 \<le> L then {''SMA_50'', ''EMA_50''} else {})
     \<union> (if 20 \<le> L then {''BB_Middle'', ''BB_StdDev'', ''BB_Upper'', ''BB_Lower''} else {})
     \<union> (if 14 \<le> L then {''RSI''} else {})
     \<union> {''Daily_Return''}
     \<union> (if 20 \<le> L then {''Volatility_20D''} else {})
     \<union> (if has_open then {''Close_Open_Diff''} else {})"

subsection \<open>Counting missing entries\<close>

definition nan_count :: "cell list \<Rightarrow> nat" where
  "nan_count xs = length (filter (\<lambda>x. x = None) xs)"

subsection \<open>Example environments\<close>

text \<open>A provider table of one day that has no volume column.\<close>

definition raw_no_volume :: raw_frame where
  "raw_no_volume =
     \<lparr>raw_index = DatetimeIndex [(2020, 1, 2)],
      raw_labels = Index [''Open'', ''High'', ''Low'', ''Close''],
      raw_data = [NumCol [Some 1], NumCol [Some 2], NumCol [Some 1], NumCol [Some 2]]\<rparr>"

text \<open>A provider that raises on the first call and answers with that table afterwards; the
  database cannot be opened.\<close>

definition env_flaky :: env where
  "env_flaky =
     \<lparr>download = (\<lambda>ticker sd ed n. if n = 0 then Inl ProviderError else Inr raw_no_volume),
      to_numeric_str = (\<lambda>s. None),
      to_datetime = (\<lambda>ks. Inl TypeError),
      connect = (\<lambda>db. Some SqliteError),
      to_sql_error = (\<lambda>db table df. None),
      read_sql_query = (\<lambda>db q. Inl SqliteError)\<rparr>"

text \<open>A provider that always answers with the five-day series that has one outlier, as a raw
  table with capitalised labels; the database opens and accepts every append.\<close>

definition raw_spike :: raw_frame where
  "raw_spike =
     \<lparr>raw_index = DatetimeIndex (days_from 0 spike_close),
      raw_labels = Index [''Close'', ''High'', ''Low'', ''Open'', ''Volume''],
      raw_data = [NumCol spike_close, NumCol spike_close, NumCol spike_close, NumCol spike_close,
                  NumCol [Some 10, Some 10, Some 10, Some 10, Some 10]]\<rparr>"

definition env_online :: env where
  "env_online =
     \<lparr>download = (\<lambda>ticker sd ed n. Inr raw_spike),
      to_numeric_str = (\<lambda>s. None),
      to_datetime = (\<lambda>ks. Inl TypeError),
      connect = (\<lambda>db. None),
      to_sql_error = (\<lambda>db table df. None),
      read_sql_query = (\<lambda>db q. Inl SqliteError)\<rparr>"

subsection \<open>Tickers that reach the store\<close>

text \<open>A ticker passes when none of its stages returned an empty frame, raised, or failed the
  validation.\<close>

definition passes :: "env \<Rightarrow> string \<Rightarrow> string \<Rightarrow> bool" where
  "passes env ed ticker = (case stages env ed ticker of Inr (Some df) \<Rightarrow> True | _ \<Rightarrow> False)"

text \<open>A database that opens and whose engine answers every query with a frame that has no
  rows and one column, named by the text of the query: what \<open>retrieve_data\<close> returns shows
  which query it sent.\<close>

definition echo_frame :: "string \<Rightarrow> frame" where
  "echo_frame q = \<lparr>index = OtherIndex [], columns = [(q, ObjCol [])]\<rparr>"

definition env_echo :: env where
  "env_echo =
     \<lparr>download = (\<lambda>ticker sd ed n. Inl ProviderError),
      to_numeric_str = (\<lambda>s. None),
      to_datetime = (\<lambda>ks. Inl TypeError),
      connect = (\<lambda>db. None),
      to_sql_error = (\<lambda>db table df. None),
      read_sql_query = (\<lambda>db q. Inr (echo_frame q))\<rparr>"
section \<open>Properties of the cleaner\<close>

lemma get_col_set_col: "get_col (set_col c v df) c' = (if c' = c then Some v else get_col df c')"
  by (simp add: get_col_def set_col_def update_conv')

lemma len_set_col: "len (set_col c v df) = len df"
  by (simp add: len_def set_col_def)

lemma index_set_col: "index (set_col c v df) = index df"
  by (simp add: set_col_def)

lemma get_col_fill_step:
  "get_col (fill_step c df) c' = (if c' = c then map_option col_fill (get_col df c) else get_col df c')"
  by (simp add: fill_step_def get_col_set_col split: option.splits)

lemma get_col_fill_cols:
  "c \<in> set ohlcv_cols \<Longrightarrow> get_col (fill_cols df) c = map_option col_fill (get_col df c)"
  by (auto simp: fill_cols_def ohlcv_cols_def get_col_fill_step)

lemma get_col_select_rows:
  "get_col (select_rows m df) c = map_option (col_select m) (get_col df c)"
proof -
  have "map_of (map (\<lambda>(n, x). (n, f x)) al) c = map_option f (map_of al c)" for f :: "column \<Rightarrow> column" and al
    by (induction al) auto
  then show ?thesis by (simp add: get_col_def select_rows_def)
qed

lemma ffill_from_Some: "None \<notin> set (ffill_from (Some v) xs)"
proof (induction xs arbitrary: v)
  case Nil then show ?case by simp
next
  case (Cons x xs) then show ?case by (cases x) auto
qed

lemma ffill_from_all_None: "\<forall>x\<in>set xs. x = None \<Longrightarrow> ffill_from None xs = xs"
  by (induction xs) auto

lemma ffill_from_no_None: "None \<notin> set xs \<Longrightarrow> ffill_from p xs = xs"
proof (induction xs arbitrary: p)
  case Nil then show ?case by simp
next
  case (Cons x xs) then show ?case by (cases x) auto
qed

lemma ffill_from_split:
  "\<exists>x\<in>set xs. x \<noteq> None \<Longrightarrow>
   \<exists>k ys. ffill_from None xs = replicate k None @ ys \<and> ys \<noteq> [] \<and> None \<notin> set ys"
proof (induction xs)
  case Nil then show ?case by simp
next
  case (Cons x xs)
  show ?case
  proof (cases x)
    case None
    with Cons obtain k ys where "ffill_from None xs = replicate k None @ ys" "ys \<noteq> []" "None \<notin> set ys"
      by auto
    then have "ffill_from None (x # xs) = replicate (Suc k) None @ ys" using None by simp
    then show ?thesis using \<open>ys \<noteq> []\<close> \<open>None \<notin> set ys\<close> by blast
  next
    case (Some v)
    then have "ffill_from None (x # xs) = replicate 0 None @ (Some v # ffill_from (Some v) xs)" by simp
    moreover have "None \<notin> set (Some v # ffill_from (Some v) xs)" using ffill_from_Some by simp
    ultimately show ?thesis by blast
  qed
qed

lemma ffill_from_prefix_no_None:
  "ys \<noteq> [] \<Longrightarrow> None \<notin> set ys \<Longrightarrow> None \<notin> set (ffill_from p (ys @ zs))"
proof (cases ys)
  case Nil then show "ys \<noteq> [] \<Longrightarrow> ?thesis" by simp
next
  case (Cons y ys')
  assume "None \<notin> set ys"
  then obtain v where "y = Some v" using Cons by (cases y) auto
  then show ?thesis using Cons ffill_from_Some[of v "ys' @ zs"] by simp
qed

lemma bfill_ffill_some:
  assumes "\<exists>x\<in>set xs. x \<noteq> None" shows "None \<notin> set (bfill (ffill xs))"
proof -
  obtain k ys where f: "ffill_from None xs = replicate k None @ ys" "ys \<noteq> []" "None \<notin> set ys"
    using ffill_from_split[OF assms] by blast
  have "rev (ffill xs) = rev ys @ replicate k None" using f by (simp add: ffill_def)
  moreover have "rev ys \<noteq> []" "None \<notin> set (rev ys)" using f by auto
  ultimately have "None \<notin> set (ffill_from None (rev (ffill xs)))"
    using ffill_from_prefix_no_None by metis
  then show ?thesis by (simp add: bfill_def ffill_def)
qed

lemma bfill_ffill_none:
  assumes "\<forall>x\<in>set xs. x = None" shows "bfill (ffill xs) = xs"
  using assms by (simp add: bfill_def ffill_def ffill_from_all_None)

lemma bfill_ffill_id: "None \<notin> set xs \<Longrightarrow> bfill (ffill xs) = xs"
  by (simp add: bfill_def ffill_def ffill_from_no_None)

lemma filled_bfill_ffill: "filled (bfill (ffill xs))"
proof (cases "\<exists>x\<in>set xs. x \<noteq> None")
  case True
  then show ?thesis using bfill_ffill_some[of xs] by (simp add: filled_def)
next
  case False
  then have "bfill (ffill xs) = xs" using bfill_ffill_none[of xs] by blast
  then show ?thesis using False by (auto simp: filled_def)
qed

lemma bfill_ffill_filled: "filled xs \<Longrightarrow> bfill (ffill xs) = xs"
  using bfill_ffill_id bfill_ffill_none by (auto simp: filled_def)

lemma clip_values_bounds:
  assumes "nan_lt (Some 0) (IQR xs)" and "None \<notin> set xs"
  shows "\<exists>lo hi. lower_bound xs = Some lo \<and> upper_bound xs = Some hi \<and>
           (\<forall>y\<in>set (clip_values xs). \<exists>v. y = Some v \<and> lo \<le> v \<and> v \<le> hi)"
proof -
  from assms(1) obtain q1 q3 where q: "quantile (1/4) xs = Some q1" "quantile (3/4) xs = Some q3" "q1 < q3"
    by (auto simp: IQR_def nan_lt_def nan_sub_def split: option.splits)
  define lo where "lo = q1 - 3/2 * (q3 - q1)"
  define hi where "hi = q3 + 3/2 * (q3 - q1)"
  have lb: "lower_bound xs = Some lo" and ub: "upper_bound xs = Some hi"
    using q by (simp_all add: lower_bound_def upper_bound_def IQR_def nan_sub_def nan_add_def nan_mul_def lo_def hi_def)
  have "0 \<le> 3 / 2 * (q3 - q1)" using q(3) by simp
  then have lh: "lo \<le> hi" using q(3) unfolding lo_def hi_def by linarith
  have "\<exists>v. y = Some v \<and> lo \<le> v \<and> v \<le> hi" if "y \<in> set (clip_values xs)" for y
  proof -
    from that assms(1) obtain x where x: "x \<in> set xs"
      and y: "y = (let z = (if nan_lt x (Some lo) then Some lo else x) in if nan_lt (Some hi) z then Some hi else z)"
      by (auto simp: clip_values_def lb ub Let_def)
    from x assms(2) obtain r where "x = Some r" by (metis option.exhaust)
    then show ?thesis using y lh by (auto simp: nan_lt_def Let_def)
  qed
  then show ?thesis using lb ub by blast
qed

lemma clip_values_unchanged: "\<not> nan_lt (Some 0) (IQR xs) \<Longrightarrow> clip_values xs = xs"
  by (simp add: clip_values_def)

lemma quantile_all_None: "\<forall>x\<in>set xs. x = None \<Longrightarrow> quantile q xs = None"
proof -
  assume "\<forall>x\<in>set xs. x = None"
  then have "filter (\<lambda>x. x \<noteq> None) xs = []" by (simp add: filter_empty_conv)
  then show ?thesis by (simp add: quantile_def)
qed

lemma IQR_pos_has_value: "nan_lt (Some 0) (IQR xs) \<Longrightarrow> \<exists>x\<in>set xs. x \<noteq> None"
proof (rule ccontr)
  assume a: "nan_lt (Some 0) (IQR xs)" and "\<not> (\<exists>x\<in>set xs. x \<noteq> None)"
  then have "quantile (1/4) xs = None" using quantile_all_None by blast
  then show False using a by (simp add: IQR_def nan_lt_def nan_sub_def split: option.splits)
qed

lemma set_select_mask: "set (select_mask m xs) \<subseteq> set xs"
  by (auto simp: select_mask_def dest: set_zip_leftD)

lemma set_sort_by: "set (sort_by ks xs) \<subseteq> set xs"
  by (auto simp: sort_by_def dest: set_zip_rightD)

lemma filled_subset: "filled xs \<Longrightarrow> set ys \<subseteq> set xs \<Longrightarrow> filled ys"
  by (auto simp: filled_def)

lemma has_col_get_col: "has_col df c \<longleftrightarrow> get_col df c \<noteq> None"
  by (simp add: has_col_def get_col_def col_names_def map_of_eq_None_iff)

lemma clip_col_other: "clip_col c df = Inr d \<Longrightarrow> c' \<noteq> c \<Longrightarrow> get_col d c' = get_col df c'"
  by (auto simp: clip_col_def get_col_set_col split: if_splits option.splits column.splits)

lemma clip_col_same:
  "clip_col c df = Inr d \<Longrightarrow> get_col df c = Some (NumCol xs) \<Longrightarrow>
   get_col d c = Some (NumCol (if len df > 0 then clip_values xs else xs))"
  by (auto simp: clip_col_def get_col_set_col has_col_get_col split: if_splits)

lemma clip_col_len: "clip_col c df = Inr d \<Longrightarrow> len d = len df"
  by (auto simp: clip_col_def len_set_col split: if_splits option.splits column.splits)

lemma clip_col_index: "clip_col c df = Inr d \<Longrightarrow> index d = index df"
  by (auto simp: clip_col_def index_set_col split: if_splits option.splits column.splits)

lemma clip_outliers_get:
  assumes "clip_outliers df = Inr d" and "c = ''close'' \<or> c = ''volume''"
    and "get_col df c = Some (NumCol xs)"
  shows "get_col d c = Some (NumCol (if len df > 0 then clip_values xs else xs))"
proof -
  from assms(1) obtain d1 where d1: "clip_col ''close'' df = Inr d1" and d: "clip_col ''volume'' d1 = Inr d"
    by (auto simp: clip_outliers_def bind_exn_def split: sum.splits)
  show ?thesis
  proof (cases "c = ''close''")
    case True
    then have "get_col d1 c = Some (NumCol (if len df > 0 then clip_values xs else xs))"
      using clip_col_same[OF d1] assms(3) by simp
    then show ?thesis using clip_col_other[OF d, of c] True by simp
  next
    case False
    then have c: "c = ''volume''" using assms(2) by simp
    then have "get_col d1 c = Some (NumCol xs)" using clip_col_other[OF d1, of c] assms(3) by simp
    then show ?thesis using clip_col_same[OF d] c clip_col_len[OF d1] by simp
  qed
qed

lemma get_col_sort_index:
  "get_col (sort_index d) c =
     (case index d of DatetimeIndex ds \<Rightarrow> map_option (col_sort_by ds) (get_col d c)
                    | OtherIndex ks \<Rightarrow> map_option (col_sort_by ks) (get_col d c))"
proof -
  have "map_of (map (\<lambda>(n, x). (n, f x)) al) c = map_option f (map_of al c)" for f :: "column \<Rightarrow> column" and al
    by (induction al) auto
  then show ?thesis by (simp add: get_col_def sort_index_def split: pd_index.splits)
qed

lemma select_mask_empty:
  assumes "length m = length ks" and "select_mask m ks = []"
  shows "select_mask m xs = []"
proof -
  have "\<forall>p \<in> set (zip ks m). \<not> snd p" using assms(2) by (simp add: select_mask_def filter_empty_conv)
  moreover have "set m = snd ` set (zip ks m)" using assms(1)
    by (metis map_snd_zip set_map)
  ultimately have "\<forall>b \<in> set m. \<not> b" by auto
  then have "\<forall>p \<in> set (zip xs m). \<not> snd p" by (auto dest: set_zip_rightD)
  then show ?thesis by (simp add: select_mask_def filter_empty_conv)
qed

lemma length_keep_mask: "length (keep_mask df cs) = len df"
  by (simp add: keep_mask_def)

lemma index_fill_cols: "index (fill_cols df) = index df"
proof -
  have "index (fill_step c d) = index d" for c d
    by (simp add: fill_step_def index_set_col split: option.splits)
  then show ?thesis by (simp add: fill_cols_def ohlcv_cols_def)
qed

lemma pre_clip_col:
  assumes "c \<in> set ohlcv_cols" and "get_col (pre_clip df) c = Some (NumCol xs)"
  shows "filled xs \<and> (len (pre_clip df) = 0 \<longrightarrow> xs = [])"
proof -
  define m where "m = keep_mask (fill_cols df) (filter (has_col (fill_cols df)) ohlcv_cols)"
  have pc: "pre_clip df = select_rows m (fill_cols df)" by (simp add: pre_clip_def dropna_all_def m_def)
  from assms obtain c0 where c0: "get_col df c = Some c0" and e: "col_select m (col_fill c0) = NumCol xs"
    by (auto simp: pc get_col_select_rows get_col_fill_cols)
  then obtain xs0 where c0n: "c0 = NumCol xs0" and xs: "xs = select_mask m (bfill (ffill xs0))"
    by (cases c0) auto
  have f: "filled xs" unfolding xs
    using filled_subset[OF filled_bfill_ffill set_select_mask] .
  have lm: "length m = index_len (index df)" by (simp add: m_def length_keep_mask len_def index_fill_cols)
  have "xs = []" if "len (pre_clip df) = 0"
  proof (cases "index df")
    case (DatetimeIndex ds)
    then have "select_mask m ds = []" using that by (simp add: pc len_def select_rows_def index_fill_cols)
    then show ?thesis unfolding xs using select_mask_empty[of m ds] lm DatetimeIndex by simp
  next
    case (OtherIndex ks)
    then have "select_mask m ks = []" using that by (simp add: pc len_def select_rows_def index_fill_cols)
    then show ?thesis unfolding xs using select_mask_empty[of m ks] lm OtherIndex by simp
  qed
  then show ?thesis using f by simp
qed

lemma filled_with_value: "filled xs \<Longrightarrow> \<exists>x\<in>set xs. x \<noteq> None \<Longrightarrow> None \<notin> set xs"
  by (auto simp: filled_def)

subsection \<open>Evaluating the cleaner on concrete series\<close>

lemmas frame_eval =
  is_empty_def len_def pre_clip_def dropna_all_def fill_cols_def ohlcv_cols_def fill_step_def
  get_col_def set_col_def has_col_def col_names_def ffill_def bfill_def keep_mask_def
  select_rows_def select_mask_def clip_outliers_def clip_col_def bind_exn_def sort_index_def
  sort_by_def ohlcv_frame_def

lemmas fence_eval =
  clip_values_def IQR_def lower_bound_def upper_bound_def quantile_def Let_def
  nan_lt_def nan_sub_def nan_add_def nan_mul_def within_fence_def

lemma pre_clip_flat: "pre_clip series_flat = series_flat"
  by (simp add: series_flat_def flat_close_def frame_eval)

lemma clean_flat: "clean_data series_flat = Inr series_flat"
  by (simp add: clean_data_def series_flat_def flat_close_def frame_eval fence_eval)

lemma pre_clip_spike: "pre_clip series_spike = series_spike"
  by (simp add: series_spike_def spike_close_def frame_eval)

lemma clean_spike: "clean_data series_spike = Inr series_spike_cleaned"
  by (simp add: clean_data_def series_spike_def series_spike_cleaned_def spike_close_def
      frame_eval fence_eval)

subsection \<open>The clipping bound\<close>

text \<open>
  C3, as stated: after \<open>clean_data\<close> every close and every volume value lies within the fence
  \<open>[Q1 - 1.5 IQR, Q3 + 1.5 IQR]\<close> of its column. It fails where the column is not clipped.
  In \<open>series_flat\<close> both quartiles of close are 5, so the fence is \<open>[5, 5]\<close>, the interquartile
  range is 0, nothing is clipped and the close of 1 stays outside the fence; the volume column
  has no number at all, so its quartiles are not-a-number and no value lies within anything.
\<close>

theorem clip_bound_counterexample:
  "clean_data series_flat = Inr series_flat
   \<and> pre_clip series_flat = series_flat
   \<and> get_col series_flat ''close'' = Some (NumCol flat_close)
   \<and> lower_bound flat_close = Some 5 \<and> upper_bound flat_close = Some 5
   \<and> Some 1 \<in> set flat_close \<and> \<not> within_fence flat_close (Some 1)
   \<and> get_col series_flat ''volume'' = Some (NumCol [None, None, None, None, None, None, None])
   \<and> IQR [None, None, None, None, None, None, None] = None
   \<and> \<not> within_fence [None, None, None, None, None, None, None] None"
proof -
  have "get_col series_flat ''close'' = Some (NumCol flat_close)"
    and "get_col series_flat ''volume'' = Some (NumCol [None, None, None, None, None, None, None])"
    by (simp_all add: series_flat_def frame_eval)
  moreover have "lower_bound flat_close = Some 5" and "upper_bound flat_close = Some 5"
    and "Some 1 \<in> set flat_close" and "\<not> within_fence flat_close (Some 1)"
    by (simp_all add: flat_close_def fence_eval)
  moreover have "IQR [None, None, None, None, None, None, None] = None"
    and "\<not> within_fence [None, None, None, None, None, None, None] None"
    by (simp_all add: fence_eval)
  ultimately show ?thesis using clean_flat pre_clip_flat by simp
qed

text \<open>
  C3, amended: for close and volume alike, let \<open>xs\<close> be the column when the clipping loop
  starts (after the fill and the row drop). If its interquartile range is positive, every
  value of that column in the result of \<open>clean_data\<close> is a number within the fence computed
  from \<open>xs\<close>. Otherwise (the range is 0, or not-a-number because the column has no number)
  the clipping step leaves the column as it was.
\<close>

theorem clean_data_clip_bound:
  assumes "clean_data df = Inr s" and "\<not> is_empty df"
    and "c = ''close'' \<or> c = ''volume''"
    and "get_col (pre_clip df) c = Some (NumCol xs)"
  shows "\<exists>d ys. clip_outliers (pre_clip df) = Inr d \<and> s = sort_index d
           \<and> get_col s c = Some (NumCol ys)
           \<and> (if nan_lt (Some 0) (IQR xs)
               then \<forall>y \<in> set ys. within_fence xs y
               else get_col d c = Some (NumCol xs))"
proof -
  from assms(1,2) obtain d where d: "clip_outliers (pre_clip df) = Inr d" and s: "s = sort_index d"
    by (auto simp: clean_data_def bind_exn_def split: sum.splits)
  have c: "c \<in> set ohlcv_cols" using assms(3) by (auto simp: ohlcv_cols_def)
  note pc = pre_clip_col[OF c assms(4)]
  define zs where "zs = (if len (pre_clip df) > 0 then clip_values xs else xs)"
  have gd: "get_col d c = Some (NumCol zs)"
    using clip_outliers_get[OF d assms(3,4)] by (simp add: zs_def)
  have "\<exists>ys. get_col s c = Some (NumCol ys) \<and> set ys \<subseteq> set zs"
  proof (cases "index d")
    case (DatetimeIndex ds)
    then have "get_col s c = Some (NumCol (sort_by ds zs))" by (simp add: s get_col_sort_index gd)
    then show ?thesis using set_sort_by[of ds zs] by simp
  next
    case (OtherIndex ks)
    then have "get_col s c = Some (NumCol (sort_by ks zs))" by (simp add: s get_col_sort_index gd)
    then show ?thesis using set_sort_by[of ks zs] by simp
  qed
  then obtain ys where ys: "get_col s c = Some (NumCol ys)" and sub: "set ys \<subseteq> set zs"
    by blast
  show ?thesis
  proof (cases "nan_lt (Some 0) (IQR xs)")
    case True
    then have v: "\<exists>x\<in>set xs. x \<noteq> None" by (rule IQR_pos_has_value)
    then have "xs \<noteq> []" by auto
    then have z: "zs = clip_values xs" using pc by (auto simp: zs_def)
    have "None \<notin> set xs" using pc v filled_with_value[of xs] by simp
    from clip_values_bounds[OF True this] obtain lo hi
      where lb: "lower_bound xs = Some lo" and ub: "upper_bound xs = Some hi"
        and b: "\<forall>y\<in>set (clip_values xs). \<exists>v. y = Some v \<and> lo \<le> v \<and> v \<le> hi"
      by blast
    have "within_fence xs y" if "y \<in> set ys" for y
    proof -
      from that sub z have "y \<in> set (clip_values xs)" by blast
      with b obtain v where "y = Some v" "lo \<le> v" "v \<le> hi" by blast
      then show ?thesis by (simp add: within_fence_def lb ub)
    qed
    then have "if nan_lt (Some 0) (IQR xs) then \<forall>y \<in> set ys. within_fence xs y
               else get_col d c = Some (NumCol xs)"
      using True by simp
    with d s ys show ?thesis by blast
  next
    case False
    then have "zs = xs" by (simp add: zs_def clip_values_unchanged)
    then have "if nan_lt (Some 0) (IQR xs) then \<forall>y \<in> set ys. within_fence xs y
               else get_col d c = Some (NumCol xs)"
      using False gd by simp
    with d s ys show ?thesis by blast
  qed
qed

theorem clean_data_clip_bound_witness:
  "clean_data series_spike = Inr series_spike_cleaned \<and> \<not> is_empty series_spike
   \<and> get_col (pre_clip series_spike) ''close'' = Some (NumCol spike_close)
   \<and> nan_lt (Some 0) (IQR spike_close)
   \<and> get_col series_spike_cleaned ''close''
       = Some (NumCol [Some 1, Some 2, Some 3, Some 4, Some 7])
   \<and> within_fence spike_close (Some 7)"
proof -
  have e: "\<not> is_empty series_spike"
    by (simp add: series_spike_def spike_close_def frame_eval)
  have g: "get_col (pre_clip series_spike) ''close'' = Some (NumCol spike_close)"
    by (simp add: pre_clip_spike) (simp add: series_spike_def frame_eval)
  have q: "nan_lt (Some 0) (IQR spike_close)"
    by (simp add: spike_close_def fence_eval)
  have r: "get_col series_spike_cleaned ''close''
             = Some (NumCol [Some 1, Some 2, Some 3, Some 4, Some 7])"
    by (simp add: series_spike_cleaned_def get_col_def update_conv')
  from clean_data_clip_bound[OF clean_spike e _ g, of] q r
  have "within_fence spike_close (Some 7)" by auto
  then show ?thesis using clean_spike e g q r by simp
qed

section \<open>A second pass of the cleaner\<close>

subsection \<open>Shape\<close>

lemma wf_frame_iff:
  "wf_frame df \<longleftrightarrow>
     distinct (col_names df) \<and> (\<forall>n c. get_col df n = Some c \<longrightarrow> col_len c = len df)"
proof -
  have "distinct (map fst al) \<Longrightarrow> ((n, c) \<in> set al \<longleftrightarrow> map_of al n = Some c)"
    for al :: "(string \<times> column) list" and n c
    by (auto dest: map_of_SomeD)
  then show ?thesis
    by (fastforce simp: wf_frame_def get_col_def col_names_def)
qed

lemma in_columns_get_col:
  "distinct (col_names df) \<Longrightarrow> (n, c) \<in> set (columns df) \<Longrightarrow> get_col df n = Some c"
  by (simp add: col_names_def get_col_def)

lemma col_names_set_col_present:
  "get_col df c = Some v0 \<Longrightarrow> col_names (set_col c v df) = col_names df"
  by (auto simp: col_names_def set_col_def get_col_def update_keys dest: map_of_SomeD
      intro: rev_image_eqI)

lemma set_col_same: "get_col df c = Some v \<Longrightarrow> set_col c v df = df"
  by (simp add: get_col_def set_col_def update_triv)

lemma length_ffill_from: "length (ffill_from p xs) = length xs"
proof (induction xs arbitrary: p)
  case Nil then show ?case by simp
next
  case (Cons x xs) then show ?case by (cases x) auto
qed

lemma length_fill: "length (bfill (ffill xs)) = length xs"
  by (simp add: bfill_def ffill_def length_ffill_from)

lemma col_len_col_fill: "col_len (col_fill v) = col_len v"
  by (cases v) (simp_all add: length_fill)

lemma col_filled_col_fill: "col_filled (col_fill v)"
  by (cases v) (simp_all add: filled_bfill_ffill)

lemma col_fill_filled: "col_filled v \<Longrightarrow> col_fill v = v"
  by (cases v) (simp_all add: bfill_ffill_filled)

lemma length_select_mask:
  "length xs = length m \<Longrightarrow> length (select_mask m xs) = length (filter (\<lambda>b. b) m)"
proof (induction xs m rule: list_induct2)
  case Nil then show ?case by (simp add: select_mask_def)
next
  case (Cons x xs b m) then show ?case by (simp add: select_mask_def)
qed

lemma select_mask_all: "length xs = n \<Longrightarrow> select_mask (replicate n True) xs = xs"
proof (induction xs arbitrary: n)
  case Nil then show ?case by (simp add: select_mask_def)
next
  case (Cons x xs)
  then obtain k where "n = Suc k" "length xs = k" by auto
  then show ?case using Cons.IH[of k] by (simp add: select_mask_def)
qed

lemma length_clip_values: "length (clip_values xs) = length xs"
  by (simp add: clip_values_def Let_def)

lemma length_sort_by: "length ks = length xs \<Longrightarrow> length (sort_by ks xs) = length xs"
  by (simp add: sort_by_def)

lemma sort_by_sorted:
  assumes "sorted ks" and "length ks = length xs"
  shows "sort_by ks xs = xs"
proof -
  have "sorted (map fst (zip ks xs))" using assms by simp
  then have "sort_key fst (zip ks xs) = zip ks xs" by (rule sort_key_id_if_sorted)
  then show ?thesis using assms by (simp add: sort_by_def)
qed

lemma col_len_notna: "length (notna v) = col_len v"
  by (cases v) simp_all

subsection \<open>A cleaned frame is a fixed point of every step but the clipping\<close>

lemma fill_step_cleaned:
  assumes "cleaned s" and "c \<in> set ohlcv_cols"
  shows "fill_step c s = s"
proof (cases "get_col s c")
  case None then show ?thesis by (simp add: fill_step_def)
next
  case (Some v)
  then have "col_filled v" using assms by (auto simp: cleaned_def)
  then show ?thesis using Some by (simp add: fill_step_def col_fill_filled set_col_same)
qed

lemma fill_cols_cleaned: "cleaned s \<Longrightarrow> fill_cols s = s"
  by (simp add: fill_cols_def ohlcv_cols_def fill_step_cleaned)

lemma select_rows_all:
  assumes "wf_frame s"
  shows "select_rows (replicate (len s) True) s = s"
proof -
  have i: "index_select (replicate (len s) True) (index s) = index s"
    by (cases "index s") (simp_all add: len_def select_mask_all)
  have "col_select (replicate (len s) True) c = c" if "(n, c) \<in> set (columns s)" for n c
  proof -
    from that assms have "col_len c = len s" by (auto simp: wf_frame_def)
    then show ?thesis by (cases c) (simp_all add: select_mask_all)
  qed
  then have "map (\<lambda>(n, c). (n, col_select (replicate (len s) True) c)) (columns s) = columns s"
    by (intro map_idI) auto
  then show ?thesis using i by (simp add: select_rows_def)
qed

lemma keep_mask_cleaned:
  assumes "cleaned s"
  shows "keep_mask s (filter (has_col s) ohlcv_cols) = replicate (len s) True"
proof (cases "0 < len s")
  case False then show ?thesis by (simp add: keep_mask_def)
next
  case True
  with assms obtain c v where c: "c \<in> set ohlcv_cols" and v: "get_col s c = Some v"
    and cc: "col_complete v"
    by (auto simp: cleaned_def)
  have wf: "wf_frame s" using assms by (simp add: cleaned_def)
  then have l: "length (notna v) = len s" using v by (simp add: wf_frame_iff col_len_notna)
  have hc: "c \<in> set (filter (has_col s) ohlcv_cols)" using c v by (simp add: has_col_get_col)
  have "\<exists>c \<in> set (filter (has_col s) ohlcv_cols). case get_col s c of
                 None \<Rightarrow> False
               | Some v \<Rightarrow> i < length (notna v) \<and> notna v ! i" if "i < len s" for i
  proof -
    have "notna v ! i \<in> set (notna v)" using l that by (intro nth_mem) simp
    then have "notna v ! i" using cc unfolding col_complete_def by blast
    then show ?thesis using hc v l that by (intro bexI[of _ c]) simp_all
  qed
  then show ?thesis
    unfolding keep_mask_def by (intro nth_equalityI) simp_all
qed

lemma dropna_all_cleaned: "cleaned s \<Longrightarrow> dropna_all s = s"
  by (simp add: dropna_all_def keep_mask_cleaned select_rows_all cleaned_def)

lemma sorted_sort_by_id:
  "sorted ks \<Longrightarrow> col_len v = length ks \<Longrightarrow> col_sort_by ks v = v"
  by (cases v) (simp_all add: sort_by_sorted)

lemma sort_index_sorted:
  assumes wf: "wf_frame s" and so: "index_sorted (index s)"
  shows "sort_index s = s"
proof -
  show ?thesis
  proof (cases "index s")
    case (DatetimeIndex ds)
    then have sd: "sorted ds" and l: "len s = length ds" using so by (simp_all add: len_def)
    have "col_sort_by ds c = c" if "(n, c) \<in> set (columns s)" for n c
      using that wf l sd by (intro sorted_sort_by_id) (auto simp: wf_frame_def)
    then have "map (\<lambda>(n, c). (n, col_sort_by ds c)) (columns s) = columns s"
      by (intro map_idI) auto
    then show ?thesis using DatetimeIndex sd by (simp add: sort_index_def sorted_sort_id)
  next
    case (OtherIndex ks)
    then have sd: "sorted ks" and l: "len s = length ks" using so by (simp_all add: len_def)
    have "col_sort_by ks c = c" if "(n, c) \<in> set (columns s)" for n c
      using that wf l sd by (intro sorted_sort_by_id) (auto simp: wf_frame_def)
    then have "map (\<lambda>(n, c). (n, col_sort_by ks c)) (columns s) = columns s"
      by (intro map_idI) auto
    then show ?thesis using OtherIndex sd by (simp add: sort_index_def sorted_sort_id)
  qed
qed

lemma clip_col_fixed:
  assumes "0 < len s \<longrightarrow> (\<forall>v. get_col s c = Some v \<longrightarrow> is_numeric_dtype v)"
    and "\<forall>xs. get_col s c = Some (NumCol xs) \<longrightarrow> clip_values xs = xs"
  shows "clip_col c s = Inr s"
proof (cases "has_col s c \<and> 0 < len s")
  case False then show ?thesis by (auto simp: clip_col_def)
next
  case True
  then obtain v where v: "get_col s c = Some v" by (auto simp: has_col_get_col)
  then have "is_numeric_dtype v" using assms(1) True by simp
  then obtain xs where "v = NumCol xs" by (cases v) auto
  then show ?thesis using v True assms(2) by (simp add: clip_col_def set_col_same)
qed

lemma clean_data_cleaned_fixed:
  assumes "cleaned s"
    and "\<forall>xs. get_col s ''close'' = Some (NumCol xs) \<longrightarrow> clip_values xs = xs"
    and "\<forall>xs. get_col s ''volume'' = Some (NumCol xs) \<longrightarrow> clip_values xs = xs"
  shows "clean_data s = Inr s"
proof -
  have p: "pre_clip s = s" using assms(1) by (simp add: pre_clip_def fill_cols_cleaned dropna_all_cleaned)
  have "clip_col ''close'' s = Inr s" "clip_col ''volume'' s = Inr s"
    using assms by (auto intro!: clip_col_fixed simp: cleaned_def)
  then have "clip_outliers s = Inr s" by (simp add: clip_outliers_def bind_exn_def)
  then show ?thesis using p assms(1)
    by (simp add: clean_data_def bind_exn_def sort_index_sorted cleaned_def)
qed

subsection \<open>The result of the cleaner is a cleaned frame\<close>

lemma map_cols_names: "map fst (map (\<lambda>(n, c). (n, f c)) al) = map fst al"
  by (induction al) auto

lemma wf_set_col_present:
  assumes "wf_frame df" and "get_col df c = Some v0" and "col_len v = len df"
  shows "wf_frame (set_col c v df)"
  using assms
  by (auto simp: wf_frame_iff col_names_set_col_present get_col_set_col len_set_col
      split: if_splits)

lemma wf_fill_step: "wf_frame df \<Longrightarrow> wf_frame (fill_step c df)"
proof (cases "get_col df c")
  case None then show "wf_frame df \<Longrightarrow> ?thesis" by (simp add: fill_step_def)
next
  case (Some v)
  assume wf: "wf_frame df"
  then have "col_len (col_fill v) = len df" using Some by (simp add: wf_frame_iff col_len_col_fill)
  then show ?thesis using wf Some by (simp add: fill_step_def wf_set_col_present)
qed

lemma wf_fill_cols: "wf_frame df \<Longrightarrow> wf_frame (fill_cols df)"
  by (simp add: fill_cols_def ohlcv_cols_def wf_fill_step)

lemma len_fill_cols: "len (fill_cols df) = len df"
  by (simp add: len_def index_fill_cols)

lemma len_select_rows:
  "length m = len df \<Longrightarrow> len (select_rows m df) = length (filter (\<lambda>b. b) m)"
  by (cases "index df") (simp_all add: len_def select_rows_def length_select_mask)

lemma col_len_col_select:
  "col_len c = length m \<Longrightarrow> col_len (col_select m c) = length (filter (\<lambda>b. b) m)"
  by (cases c) (simp_all add: length_select_mask)

lemma wf_select_rows:
  assumes "wf_frame df" and "length m = len df"
  shows "wf_frame (select_rows m df)"
proof -
  have "col_names (select_rows m df) = col_names df"
    by (auto simp: col_names_def select_rows_def)
  then show ?thesis using assms
    by (auto simp: wf_frame_iff get_col_select_rows len_select_rows col_len_col_select)
qed

lemma clip_col_names: "clip_col c df = Inr d \<Longrightarrow> col_names d = col_names df"
  by (auto simp: clip_col_def col_names_set_col_present split: if_splits option.splits column.splits)

lemma clip_col_get_any:
  assumes "clip_col c0 df = Inr d"
  shows "get_col d c = (if c = c0 \<and> 0 < len df then map_option col_clip (get_col df c)
                        else get_col df c)"
  using assms
  by (auto simp: clip_col_def get_col_set_col has_col_get_col
      split: if_splits option.splits column.splits)

lemma clip_col_numeric:
  assumes "clip_col c df = Inr d" and "0 < len df" and "get_col df c = Some v"
  shows "is_numeric_dtype v"
  using assms
  by (auto simp: clip_col_def has_col_get_col split: if_splits option.splits column.splits)

lemma col_len_col_clip: "col_len (col_clip v) = col_len v"
  by (cases v) (simp_all add: length_clip_values)

lemma is_numeric_col_clip: "is_numeric_dtype (col_clip v) = is_numeric_dtype v"
  by (cases v) simp_all

lemma wf_clip_col:
  assumes "clip_col c0 df = Inr d" and "wf_frame df"
  shows "wf_frame d"
  using assms(2)
  by (auto simp: wf_frame_iff clip_col_names[OF assms(1)] clip_col_get_any[OF assms(1)]
      clip_col_len[OF assms(1)] col_len_col_clip split: if_splits)

lemma clip_values_no_None:
  assumes "None \<notin> set xs" shows "None \<notin> set (clip_values xs)"
proof (cases "nan_lt (Some 0) (IQR xs)")
  case True
  from clip_values_bounds[OF True assms] show ?thesis by fastforce
next
  case False then show ?thesis using assms by (simp add: clip_values_unchanged)
qed

lemma clip_values_all_None:
  assumes "\<forall>x\<in>set xs. x = None" shows "clip_values xs = xs"
proof -
  have "\<not> nan_lt (Some 0) (IQR xs)" using IQR_pos_has_value[of xs] assms by blast
  then show ?thesis by (rule clip_values_unchanged)
qed

lemma filled_clip_values: "filled xs \<Longrightarrow> filled (clip_values xs)"
  using clip_values_no_None[of xs] clip_values_all_None[of xs] by (auto simp: filled_def)

lemma col_filled_col_clip: "col_filled v \<Longrightarrow> col_filled (col_clip v)"
  by (cases v) (simp_all add: filled_clip_values)

lemma all_notna: "(\<forall>b \<in> set (map (\<lambda>x. x \<noteq> None) xs). b) \<longleftrightarrow> None \<notin> set xs"
  by (metis (mono_tags, lifting) imageE image_eqI list.set_map)

lemma col_complete_NumCol: "col_complete (NumCol xs) \<longleftrightarrow> None \<notin> set xs"
  unfolding col_complete_def notna.simps by (rule all_notna)

lemma col_complete_ObjCol: "col_complete (ObjCol xs) \<longleftrightarrow> None \<notin> set xs"
  unfolding col_complete_def notna.simps by (rule all_notna)

lemma no_None_subset: "None \<notin> set xs \<Longrightarrow> set ys \<subseteq> set xs \<Longrightarrow> None \<notin> set ys"
  by blast

lemma col_complete_col_clip: "col_complete v \<Longrightarrow> col_complete (col_clip v)"
  by (cases v) (simp_all add: col_complete_NumCol col_complete_ObjCol clip_values_no_None)

lemma col_filled_col_select: "col_filled v \<Longrightarrow> col_filled (col_select m v)"
proof (cases v)
  case (NumCol xs)
  then show "col_filled v \<Longrightarrow> ?thesis" using filled_subset[OF _ set_select_mask, of xs m] by simp
next
  case (ObjCol xs)
  then show "col_filled v \<Longrightarrow> ?thesis" using filled_subset[OF _ set_select_mask, of xs m] by simp
qed

lemma col_complete_col_select: "col_complete v \<Longrightarrow> col_complete (col_select m v)"
proof (cases v)
  case (NumCol xs)
  then show "col_complete v \<Longrightarrow> ?thesis"
    using no_None_subset[OF _ set_select_mask, of xs m] by (simp add: col_complete_NumCol)
next
  case (ObjCol xs)
  then show "col_complete v \<Longrightarrow> ?thesis"
    using no_None_subset[OF _ set_select_mask, of xs m] by (simp add: col_complete_ObjCol)
qed

lemma col_filled_col_sort_by: "col_filled v \<Longrightarrow> col_filled (col_sort_by ks v)"
proof (cases v)
  case (NumCol xs)
  then show "col_filled v \<Longrightarrow> ?thesis" using filled_subset[OF _ set_sort_by, of xs ks] by simp
next
  case (ObjCol xs)
  then show "col_filled v \<Longrightarrow> ?thesis" using filled_subset[OF _ set_sort_by, of xs ks] by simp
qed

lemma col_complete_col_sort_by: "col_complete v \<Longrightarrow> col_complete (col_sort_by ks v)"
proof (cases v)
  case (NumCol xs)
  then show "col_complete v \<Longrightarrow> ?thesis"
    using no_None_subset[OF _ set_sort_by, of xs ks] by (simp add: col_complete_NumCol)
next
  case (ObjCol xs)
  then show "col_complete v \<Longrightarrow> ?thesis"
    using no_None_subset[OF _ set_sort_by, of xs ks] by (simp add: col_complete_ObjCol)
qed

lemma is_numeric_col_sort_by: "is_numeric_dtype (col_sort_by ks v) = is_numeric_dtype v"
  by (cases v) simp_all

lemma col_len_col_sort_by: "col_len v = length ks \<Longrightarrow> col_len (col_sort_by ks v) = length ks"
  by (cases v) (simp_all add: length_sort_by)

lemma col_filled_has_value:
  assumes "col_filled v" and "i < length (notna v)" and "notna v ! i"
  shows "col_complete v"
proof (cases v)
  case (NumCol xs)
  then have "xs ! i \<noteq> None" "xs ! i \<in> set xs" using assms(2,3) by simp_all
  then have "\<exists>x\<in>set xs. x \<noteq> None" by blast
  then show ?thesis using assms(1) NumCol filled_with_value[of xs] by (simp add: col_complete_NumCol)
next
  case (ObjCol xs)
  then have "xs ! i \<noteq> None" "xs ! i \<in> set xs" using assms(2,3) by simp_all
  then have "\<exists>x\<in>set xs. x \<noteq> None" by blast
  then show ?thesis using assms(1) ObjCol filled_with_value[of xs] by (simp add: col_complete_ObjCol)
qed

lemma len_sort_index: "len (sort_index d) = len d"
  by (cases "index d") (simp_all add: sort_index_def len_def)

lemma index_sorted_sort_index: "index_sorted (index (sort_index d))"
  by (cases "index d") (simp_all add: sort_index_def)

lemma wf_sort_index:
  assumes "wf_frame d" shows "wf_frame (sort_index d)"
proof -
  have n: "col_names (sort_index d) = col_names d"
    by (cases "index d") (auto simp: col_names_def sort_index_def)
  have "col_len c' = len d" if "get_col (sort_index d) c = Some c'" for c c'
  proof (cases "index d")
    case (DatetimeIndex ds)
    with that obtain v where v: "get_col d c = Some v" and c': "c' = col_sort_by ds v"
      by (auto simp: get_col_sort_index)
    then have "col_len v = length ds" using assms DatetimeIndex by (simp add: wf_frame_iff len_def)
    then show ?thesis using c' DatetimeIndex by (simp add: col_len_col_sort_by len_def)
  next
    case (OtherIndex ks)
    with that obtain v where v: "get_col d c = Some v" and c': "c' = col_sort_by ks v"
      by (auto simp: get_col_sort_index)
    then have "col_len v = length ks" using assms OtherIndex by (simp add: wf_frame_iff len_def)
    then show ?thesis using c' OtherIndex by (simp add: col_len_col_sort_by len_def)
  qed
  then show ?thesis using assms n by (simp add: wf_frame_iff len_sort_index)
qed

lemma get_col_sort_index_cases:
  assumes "get_col (sort_index d) c = Some v'"
  obtains v where "get_col d c = Some v"
    and "col_filled v \<longrightarrow> col_filled v'" and "col_complete v \<longrightarrow> col_complete v'"
    and "is_numeric_dtype v' = is_numeric_dtype v"
proof (cases "index d")
  case (DatetimeIndex ds)
  with assms obtain v where "get_col d c = Some v" "v' = col_sort_by ds v"
    by (auto simp: get_col_sort_index)
  then show ?thesis
    using that col_filled_col_sort_by col_complete_col_sort_by is_numeric_col_sort_by by blast
next
  case (OtherIndex ks)
  with assms obtain v where "get_col d c = Some v" "v' = col_sort_by ks v"
    by (auto simp: get_col_sort_index)
  then show ?thesis
    using that col_filled_col_sort_by col_complete_col_sort_by is_numeric_col_sort_by by blast
qed

lemma sort_index_complete:
  assumes "get_col d c = Some v" and "col_complete v"
  shows "\<exists>v'. get_col (sort_index d) c = Some v' \<and> col_complete v'"
  using assms by (cases "index d") (simp_all add: get_col_sort_index col_complete_col_sort_by)

lemma keep_mask_some_True:
  assumes "\<exists>b \<in> set (keep_mask F cs). b"
  shows "\<exists>c \<in> set cs. \<exists>v i. get_col F c = Some v \<and> i < length (notna v) \<and> notna v ! i"
proof -
  from assms obtain i where "\<exists>c \<in> set cs. case get_col F c of
                 None \<Rightarrow> False
               | Some v \<Rightarrow> i < length (notna v) \<and> notna v ! i"
    by (auto simp: keep_mask_def)
  then show ?thesis by (auto split: option.splits)
qed

lemma clean_data_cleaned:
  assumes "wf_frame df" and "\<not> is_empty df" and "clean_data df = Inr s"
  shows "cleaned s"
proof -
  define F where "F = fill_cols df"
  define m where "m = keep_mask F (filter (has_col F) ohlcv_cols)"
  define P where "P = select_rows m F"
  have P: "pre_clip df = P" by (simp add: pre_clip_def dropna_all_def P_def m_def F_def)
  from assms(2,3) obtain d1 d where d1: "clip_col ''close'' P = Inr d1"
    and d: "clip_col ''volume'' d1 = Inr d" and s: "s = sort_index d"
    by (auto simp: clean_data_def P clip_outliers_def bind_exn_def split: sum.splits)
  have lm: "length m = len F" by (simp add: m_def length_keep_mask)
  have wfF: "wf_frame F" using assms(1) by (simp add: F_def wf_fill_cols)
  have wfP: "wf_frame P" using wfF lm by (simp add: P_def wf_select_rows)
  have wfd: "wf_frame d" using wfP d1 d wf_clip_col by blast
  have wfs: "wf_frame s" using wfd by (simp add: s wf_sort_index)
  have len: "len s = len P" "len d1 = len P"
    using clip_col_len[OF d1] clip_col_len[OF d] by (simp_all add: s len_sort_index)
  have gd: "get_col d c = (if (c = ''close'' \<or> c = ''volume'') \<and> 0 < len P
                           then map_option col_clip (get_col P c) else get_col P c)" for c
    using clip_col_get_any[OF d, of c] clip_col_get_any[OF d1, of c] len by auto
  have gP: "get_col P c = map_option (col_select m) (map_option col_fill (get_col df c))"
    if "c \<in> set ohlcv_cols" for c
    using that by (simp add: P_def F_def get_col_select_rows get_col_fill_cols)
  have fP: "col_filled v" if "c \<in> set ohlcv_cols" "get_col P c = Some v" for c v
    using that gP[of c] col_filled_col_select col_filled_col_fill by auto
  have fd: "col_filled v" if "c \<in> set ohlcv_cols" "get_col d c = Some v" for c v
    using that fP[of c] gd[of c] col_filled_col_clip by (auto split: if_splits)
  have 2: "\<forall>c \<in> set ohlcv_cols. \<forall>v. get_col s c = Some v \<longrightarrow> col_filled v"
    using fd by (auto simp: s elim!: get_col_sort_index_cases)
  have 3: "\<exists>c \<in> set ohlcv_cols. \<exists>v. get_col s c = Some v \<and> col_complete v" if "0 < len s"
  proof -
    from that have "0 < length (filter (\<lambda>b. b) m)"
      using len lm by (simp add: P_def len_select_rows)
    then have "\<exists>b \<in> set m. b" by (auto simp: filter_empty_conv)
    then obtain c v i where c: "c \<in> set (filter (has_col F) ohlcv_cols)"
      and v: "get_col F c = Some v" and i: "i < length (notna v)" "notna v ! i"
      unfolding m_def using keep_mask_some_True by blast
    have co: "c \<in> set ohlcv_cols" using c by simp
    then have "col_filled v" using v by (auto simp: F_def get_col_fill_cols col_filled_col_fill)
    then have "col_complete v" using i by (rule col_filled_has_value)
    then have cP: "get_col P c = Some (col_select m v)" "col_complete (col_select m v)"
      using v by (simp_all add: P_def get_col_select_rows col_complete_col_select)
    then have "\<exists>vd. get_col d c = Some vd \<and> col_complete vd"
      using gd[of c] col_complete_col_clip by auto
    then show ?thesis using co sort_index_complete unfolding s by blast
  qed
  have nP: "is_numeric_dtype v" if "0 < len P" "get_col P ''close'' = Some v" for v
    using clip_col_numeric[OF d1] that by simp
  have "get_col d1 ''volume'' = get_col P ''volume''"
    using clip_col_get_any[OF d1, of "''volume''"] by simp
  then have nV: "is_numeric_dtype v" if "0 < len P" "get_col P ''volume'' = Some v" for v
    using clip_col_numeric[OF d] that len by simp
  have 4: "is_numeric_dtype v" if "0 < len s" "get_col s ''close'' = Some v" for v
  proof -
    from that(2) obtain vd where "get_col d ''close'' = Some vd"
      and "is_numeric_dtype v = is_numeric_dtype vd"
      unfolding s by (rule get_col_sort_index_cases)
    then show ?thesis using nP that(1) len gd[of "''close''"] by (auto simp: is_numeric_col_clip)
  qed
  have 5: "is_numeric_dtype v" if "0 < len s" "get_col s ''volume'' = Some v" for v
  proof -
    from that(2) obtain vd where "get_col d ''volume'' = Some vd"
      and "is_numeric_dtype v = is_numeric_dtype vd"
      unfolding s by (rule get_col_sort_index_cases)
    then show ?thesis using nV that(1) len gd[of "''volume''"] by (auto simp: is_numeric_col_clip)
  qed
  show ?thesis
    unfolding cleaned_def using wfs 2 3 4 5 by (simp add: s index_sorted_sort_index)
qed

lemma clip_outliers_index: "clip_outliers s = Inr d \<Longrightarrow> index d = index s"
  by (auto simp: clip_outliers_def bind_exn_def clip_col_index split: sum.splits)

lemma wf_clip_outliers: "clip_outliers s = Inr d \<Longrightarrow> wf_frame s \<Longrightarrow> wf_frame d"
  by (auto simp: clip_outliers_def bind_exn_def split: sum.splits intro: wf_clip_col)

lemma clean_data_cleaned_again:
  assumes "cleaned s" and "\<not> is_empty s"
  shows "clean_data s = clip_outliers s"
proof (cases "clip_outliers s")
  case (Inl e)
  then show ?thesis using assms
    by (simp add: clean_data_def pre_clip_def fill_cols_cleaned dropna_all_cleaned bind_exn_def)
next
  case (Inr d)
  then have "wf_frame d" "index_sorted (index d)"
    using assms(1) wf_clip_outliers[OF Inr] clip_outliers_index[OF Inr] by (simp_all add: cleaned_def)
  then have "sort_index d = d" by (rule sort_index_sorted)
  then show ?thesis using assms Inr
    by (simp add: clean_data_def pre_clip_def fill_cols_cleaned dropna_all_cleaned bind_exn_def)
qed

lemma clip_outliers_fixed_iff:
  assumes "cleaned s" and "\<not> is_empty s"
  shows "clip_outliers s = Inr s \<longleftrightarrow>
           (\<forall>xs. get_col s ''close'' = Some (NumCol xs) \<longrightarrow> clip_values xs = xs)
         \<and> (\<forall>xs. get_col s ''volume'' = Some (NumCol xs) \<longrightarrow> clip_values xs = xs)"
proof
  assume f: "clip_outliers s = Inr s"
  have l: "0 < len s" using assms(2) by (simp add: is_empty_def)
  have "clip_values xs = xs" if "c = ''close'' \<or> c = ''volume''" "get_col s c = Some (NumCol xs)"
    for c xs
    using clip_outliers_get[OF f that] that(2) l by simp
  then show "(\<forall>xs. get_col s ''close'' = Some (NumCol xs) \<longrightarrow> clip_values xs = xs)
         \<and> (\<forall>xs. get_col s ''volume'' = Some (NumCol xs) \<longrightarrow> clip_values xs = xs)"
    by blast
next
  assume "(\<forall>xs. get_col s ''close'' = Some (NumCol xs) \<longrightarrow> clip_values xs = xs)
         \<and> (\<forall>xs. get_col s ''volume'' = Some (NumCol xs) \<longrightarrow> clip_values xs = xs)"
  then have "clean_data s = Inr s" using assms(1) by (intro clean_data_cleaned_fixed) simp_all
  then show "clip_outliers s = Inr s" using clean_data_cleaned_again[OF assms] by simp
qed

subsection \<open>Idempotence\<close>

text \<open>
  C1, as stated: cleaning an already cleaned series changes nothing. It fails because the
  second pass recomputes the quartiles from the clipped values. In \<open>series_dip\<close> the close is
  0, 100, 100, 100: the first quartile is 75 (interpolated between 0 and 100), the fence
  starts at 37.5 and the first pass raises the 0 to 37.5. That moves the first quartile to
  84.375 and the fence to 60.9375, so the second pass raises the same value again.
\<close>

theorem clean_data_idempotent_counterexample:
  "wf_frame series_dip
   \<and> clean_data series_dip = Inr series_dip_once
   \<and> clean_data series_dip_once = Inr series_dip_twice
   \<and> get_col series_dip_once ''close'' = Some (NumCol [Some (75 / 2), Some 100, Some 100, Some 100])
   \<and> get_col series_dip_twice ''close''
       = Some (NumCol [Some (975 / 16), Some 100, Some 100, Some 100])
   \<and> series_dip_once \<noteq> series_dip_twice"
proof -
  have w: "wf_frame series_dip"
    by (simp add: wf_frame_def series_dip_def dip_close_def ohlcv_frame_def col_names_def len_def)
  have 1: "clean_data series_dip = Inr series_dip_once"
    by (simp add: clean_data_def series_dip_def series_dip_once_def dip_close_def
        frame_eval fence_eval)
  have 2: "clean_data series_dip_once = Inr series_dip_twice"
    by (simp add: clean_data_def series_dip_def series_dip_once_def series_dip_twice_def
        dip_close_def frame_eval fence_eval del: not_None_eq)
  have 3: "get_col series_dip_once ''close''
             = Some (NumCol [Some (75 / 2), Some 100, Some 100, Some 100])"
    and 4: "get_col series_dip_twice ''close''
             = Some (NumCol [Some (975 / 16), Some 100, Some 100, Some 100])"
    by (simp_all add: series_dip_once_def series_dip_twice_def get_col_def update_conv')
  have "get_col series_dip_once ''close'' \<noteq> get_col series_dip_twice ''close''"
    unfolding 3 4 by simp
  then have "series_dip_once \<noteq> series_dip_twice" by auto
  with w 1 2 3 4 show ?thesis by simp
qed

text \<open>
  C1, amended: for every well-shaped series \<open>df\<close> and its cleaned form \<open>s\<close>, a second
  \<open>clean_data\<close> does nothing but clip: the fill, the row drop and the sort leave \<open>s\<close> as it is,
  so the second pass is the clipping step applied to \<open>s\<close> (when \<open>s\<close> is not empty). It
  returns \<open>s\<close> itself exactly when \<open>s\<close> is empty or clipping with the quartiles recomputed
  from \<open>s\<close> changes neither close nor volume.
\<close>

theorem clean_data_second_pass:
  assumes "wf_frame df" and "clean_data df = Inr s"
  shows "clean_data s = (if is_empty s then Inr s else clip_outliers s)
    \<and> (clean_data s = Inr s \<longleftrightarrow>
          is_empty s
          \<or> (\<forall>xs. get_col s ''close'' = Some (NumCol xs) \<longrightarrow> clip_values xs = xs)
            \<and> (\<forall>xs. get_col s ''volume'' = Some (NumCol xs) \<longrightarrow> clip_values xs = xs))"
proof (cases "is_empty s")
  case True
  then show ?thesis by (simp add: clean_data_def)
next
  case False
  have "\<not> is_empty df"
  proof
    assume "is_empty df"
    then have "s = df" using assms(2) by (simp add: clean_data_def)
    then show False using False \<open>is_empty df\<close> by simp
  qed
  with assms(1) have c: "cleaned s" using assms(2) by (rule clean_data_cleaned)
  show ?thesis
    using False clean_data_cleaned_again[OF c False] clip_outliers_fixed_iff[OF c False] by simp
qed

theorem clean_data_second_pass_witness:
  "wf_frame series_spike
   \<and> clean_data series_spike = Inr series_spike_cleaned
   \<and> \<not> is_empty series_spike_cleaned
   \<and> clip_outliers series_spike_cleaned = Inr series_spike_cleaned
   \<and> clean_data series_spike_cleaned = Inr series_spike_cleaned"
proof -
  have w: "wf_frame series_spike"
    by (simp add: wf_frame_def series_spike_def spike_close_def ohlcv_frame_def col_names_def
        len_def)
  have e: "\<not> is_empty series_spike_cleaned"
    by (simp add: series_spike_cleaned_def series_spike_def spike_close_def frame_eval)
  have c: "clip_outliers series_spike_cleaned = Inr series_spike_cleaned"
    by (simp add: series_spike_cleaned_def series_spike_def spike_close_def frame_eval fence_eval)
  from clean_data_second_pass[OF w clean_spike] show ?thesis using w clean_spike e c by simp
qed

section \<open>Properties of the feature engineer\<close>

lemma col_names_set_col: "set (col_names (set_col c v df)) = insert c (set (col_names df))"
  by (simp add: col_names_def set_col_def dom_update)

lemma has_col_set_col: "has_col (set_col c v df) c' \<longleftrightarrow> c' = c \<or> has_col df c'"
  by (auto simp: has_col_def col_names_set_col)

lemma col_names_bollinger:
  "set (col_names (bollinger cl df)) =
     {''BB_Middle'', ''BB_StdDev'', ''BB_Upper'', ''BB_Lower''} \<union> set (col_names df)"
  by (auto simp: bollinger_def Let_def col_names_set_col)

lemma get_col_bollinger:
  "c \<notin> {''BB_Middle'', ''BB_StdDev'', ''BB_Upper'', ''BB_Lower''} \<Longrightarrow>
   get_col (bollinger cl df) c = get_col df c"
  by (simp add: bollinger_def Let_def get_col_set_col)

lemma transform_data_indicators:
  assumes "\<not> is_empty df" and "get_col df ''close'' = Some (NumCol cl)"
  shows "transform_data df =
     (let d8 = indicators cl df in
      if has_col d8 ''open''
             then (case get_col d8 ''open'' of
                     Some (NumCol op) \<Rightarrow>
                       Inr (set_col ''Close_Open_Diff'' (NumCol (map2 nan_sub cl op)) d8)
                   | _ \<Rightarrow> Inl TypeError)
             else Inr d8)"
  using assms by (simp add: transform_data_def has_col_get_col)

lemma col_names_indicators:
  "set (col_names (indicators cl df)) = set (col_names df) \<union> indicator_columns (len df) False"
  by (auto simp: indicators_def Let_def indicator_columns_def col_names_set_col col_names_bollinger)

lemma get_col_indicators_open: "get_col (indicators cl df) ''open'' = get_col df ''open''"
  by (simp add: indicators_def Let_def get_col_set_col get_col_bollinger)

lemma get_col_indicators_RSI:
  "14 \<le> len df \<Longrightarrow> get_col (indicators cl df) ''RSI'' = Some (NumCol (RSI cl))"
  by (simp add: indicators_def Let_def get_col_set_col get_col_bollinger)

text \<open>
  C2: for a non-empty series with a numeric close column (and an open column that is numeric
  or absent), \<open>transform_data\<close> returns, and the columns of its result are those of its
  argument together with exactly the columns of the gating table for \<open>L = len df\<close>: SMA_50
  and EMA_50 from 50 rows on, the four Bollinger columns and Volatility_20D from 20, RSI from
  14 (SMA_10 and EMA_10 from 10), Daily_Return always, Close_Open_Diff exactly when there is
  an open column. Below its minimum length a column is not added at all.
\<close>

theorem transform_data_gating:
  assumes "\<not> is_empty df" and "get_col df ''close'' = Some (NumCol cl)"
    and "get_col df ''open'' = None \<or> (\<exists>op. get_col df ''open'' = Some (NumCol op))"
  shows "\<exists>out. transform_data df = Inr out
           \<and> set (col_names out) = set (col_names df) \<union> indicator_columns (len df) (has_col df ''open'')"
proof (cases "get_col df ''open''")
  case None
  then have "\<not> has_col (indicators cl df) ''open''" "\<not> has_col df ''open''"
    by (simp_all add: has_col_get_col get_col_indicators_open)
  then show ?thesis
    using transform_data_indicators[OF assms(1,2)] col_names_indicators[of cl df] by simp
next
  case (Some a)
  with assms(3) obtain op where op: "get_col df ''open'' = Some (NumCol op)" by auto
  then have h: "has_col (indicators cl df) ''open''" "has_col df ''open''"
    by (simp_all add: has_col_get_col get_col_indicators_open)
  have "indicator_columns (len df) True = insert ''Close_Open_Diff'' (indicator_columns (len df) False)"
    by (simp add: indicator_columns_def)
  then show ?thesis
    using transform_data_indicators[OF assms(1,2)] col_names_indicators[of cl df] h op
    by (simp add: get_col_indicators_open col_names_set_col)
qed

theorem transform_data_gating_witness:
  "\<not> is_empty series_spike
   \<and> get_col series_spike ''close'' = Some (NumCol spike_close)
   \<and> get_col series_spike ''open'' = Some (NumCol spike_close)
   \<and> (\<exists>out. transform_data series_spike = Inr out
          \<and> set (col_names out) =
              {''open'', ''high'', ''low'', ''close'', ''volume'', ''ticker'',
               ''Daily_Return'', ''Close_Open_Diff''})"
proof -
  have e: "\<not> is_empty series_spike"
    by (simp add: series_spike_def spike_close_def frame_eval)
  have c: "get_col series_spike ''close'' = Some (NumCol spike_close)"
    and p: "get_col series_spike ''open'' = Some (NumCol spike_close)"
    by (simp_all add: series_spike_def get_col_def ohlcv_frame_def)
  have n: "set (col_names series_spike)
             \<union> indicator_columns (len series_spike) (has_col series_spike ''open'')
           = {''open'', ''high'', ''low'', ''close'', ''volume'', ''ticker'',
              ''Daily_Return'', ''Close_Open_Diff''}"
    by (simp add: series_spike_def spike_close_def ohlcv_frame_def col_names_def
        indicator_columns_def len_def has_col_def insert_commute)
  from p have "get_col series_spike ''open'' = None
                 \<or> (\<exists>op. get_col series_spike ''open'' = Some (NumCol op))"
    by simp
  from transform_data_gating[OF e c this] show ?thesis using e c p by (simp only: n) simp
qed

lemma length_rolling: "length (rolling w f xs) = length xs"
  by (simp add: rolling_def)

lemma rolling_nth: "i < length xs \<Longrightarrow> rolling w f xs ! i = f (window w i xs)"
  by (simp add: rolling_def)

lemma drop_take_nth:
  assumes "b \<le> length xs" shows "drop a (take b xs) = map (nth xs) [a ..< b]"
proof -
  have "drop a (take b (map (nth xs) [0 ..< length xs])) = map (nth xs) [a ..< b]"
    using assms by (simp add: take_map drop_map)
  then show ?thesis by (simp only: map_nth)
qed

lemma window_nth: "i < length xs \<Longrightarrow> window w i xs = map (nth xs) [Suc i - w ..< Suc i]"
  unfolding window_def by (rule drop_take_nth) simp

lemma non_nan_Some: "non_nan (map Some vs) = vs"
  by (induction vs) (auto simp: non_nan_def)

lemma mean_Some: "vs \<noteq> [] \<Longrightarrow> mean (map Some vs) = Some (sum_list vs / real (length vs))"
  unfolding mean_def non_nan_Some Let_def by (cases vs) auto

lemma length_diff: "length (diff xs) = length xs"
  by (cases xs) (auto simp: diff_def)

lemma diff_nth: "i < length xs \<Longrightarrow> diff xs ! i = delta_at xs i"
proof (cases xs)
  case Nil then show "i < length xs \<Longrightarrow> ?thesis" by simp
next
  case (Cons x rest)
  assume i: "i < length xs"
  show ?thesis
  proof (cases i)
    case 0 then show ?thesis using Cons by (simp add: diff_def delta_at_def)
  next
    case (Suc j)
    then have "j < length rest" using i Cons by simp
    then show ?thesis using Cons Suc by (simp add: diff_def delta_at_def)
  qed
qed

lemma gain_series: "map (\<lambda>d. if nan_lt (Some 0) d then d else Some 0) ds = map Some (map up_move ds)"
  by (auto simp: up_move_def nan_lt_def split: option.splits)

lemma loss_series:
  "map (\<lambda>d. nan_neg (if nan_lt d (Some 0) then d else Some 0)) ds = map Some (map down_move ds)"
  by (auto simp: down_move_def nan_lt_def nan_neg_def split: option.splits)

lemma rolling_mean_Some:
  assumes "i < length ds" and "0 < w"
  shows "rolling w mean (map Some (map f ds)) ! i
           = Some (sum_list (map (\<lambda>j. f (ds ! j)) [Suc i - w ..< Suc i]) / real (min (Suc i) w))"
proof -
  let ?js = "[Suc i - w ..< Suc i]"
  have "window w i (map Some (map f ds)) = map (nth (map Some (map f ds))) ?js"
    using assms by (simp add: window_nth)
  also have "\<dots> = map Some (map (\<lambda>j. f (ds ! j)) ?js)"
    using assms by (auto simp del: upt_Suc)
  finally have w: "window w i (map Some (map f ds)) = map Some (map (\<lambda>j. f (ds ! j)) ?js)" .
  have ne: "map (\<lambda>j. f (ds ! j)) ?js \<noteq> []" using assms(2) by (simp del: upt_Suc)
  have l: "length (map (\<lambda>j. f (ds ! j)) ?js) = min (Suc i) w" using assms(2) by (auto simp del: upt_Suc)
  have r: "rolling w mean (map Some (map f ds)) ! i = mean (window w i (map Some (map f ds)))"
    using assms by (simp add: rolling_nth)
  have "mean (map Some (map (\<lambda>j. f (ds ! j)) ?js))
          = Some (sum_list (map (\<lambda>j. f (ds ! j)) ?js) / real (min (Suc i) w))"
    using mean_Some[OF ne] by (simp only: l)
  then show ?thesis by (simp only: r w)
qed

lemma up_move_nonneg: "0 \<le> up_move d"
  by (simp add: up_move_def split: option.splits)

lemma down_move_nonneg: "0 \<le> down_move d"
  by (simp add: down_move_def split: option.splits)

lemma avg_gain_nonneg: "0 \<le> avg_gain cl i"
  unfolding avg_gain_def by (intro divide_nonneg_nonneg sum_list_nonneg) (auto simp: up_move_nonneg)

lemma avg_loss_nonneg: "0 \<le> avg_loss cl i"
  unfolding avg_loss_def by (intro divide_nonneg_nonneg sum_list_nonneg) (auto simp: down_move_nonneg)

lemma length_RSI: "length (RSI cl) = length cl"
  by (simp add: RSI_def Let_def length_rolling length_diff)

lemma RSI_nth:
  assumes "i < length cl"
  shows "RSI cl ! i = rsi_spec cl i"
proof -
  define ds where "ds = diff cl"
  have lds: "length ds = length cl" by (simp add: ds_def length_diff)
  have m: "map (\<lambda>j. f (ds ! j)) [Suc i - 14 ..< Suc i] = map (\<lambda>j. f (delta_at cl j)) [Suc i - 14 ..< Suc i]"
    for f :: "cell \<Rightarrow> real"
    using assms by (auto simp: ds_def diff_nth simp del: upt_Suc)
  have g: "rolling 14 mean (map Some (map up_move ds)) ! i = Some (avg_gain cl i)"
    using rolling_mean_Some[of i ds 14 up_move] assms lds unfolding m avg_gain_def by simp
  have l: "rolling 14 mean (map Some (map down_move ds)) ! i = Some (avg_loss cl i)"
    using rolling_mean_Some[of i ds 14 down_move] assms lds unfolding m avg_loss_def by simp
  have "RSI cl ! i =
          nan_sub (Some 100) (nan_div (Some 100) (nan_add (Some 1)
            (nan_div (Some (avg_gain cl i)) (if avg_loss cl i \<noteq> 0 then Some (avg_loss cl i) else None))))"
    using assms lds g l
    by (simp add: RSI_def Let_def ds_def[symmetric] gain_series loss_series length_rolling)
  also have "\<dots> = rsi_spec cl i"
  proof (cases "avg_loss cl i = 0")
    case True then show ?thesis by (simp add: rsi_spec_def nan_sub_def nan_div_def nan_add_def)
  next
    case False
    then have "0 < avg_loss cl i" using avg_loss_nonneg[of cl i] by simp
    then have "0 \<le> avg_gain cl i / avg_loss cl i" using avg_gain_nonneg[of cl i] by simp
    then have "1 + avg_gain cl i / avg_loss cl i \<noteq> 0" by linarith
    then show ?thesis using False by (simp add: rsi_spec_def nan_sub_def nan_div_def nan_add_def)
  qed
  finally show ?thesis .
qed

text \<open>
  C4: for a series of at least 14 rows with a numeric close column, \<open>transform_data\<close> returns
  a frame whose RSI column has, at every row \<open>i\<close>, the value \<open>100 - 100 / (1 + gain / loss)\<close>,
  with \<open>gain\<close> and \<open>loss\<close> the means over the rows \<open>i - 13, \<dots>, i\<close> that exist of the
  positive close deltas and of the negated negative close deltas, and not-a-number where
  \<open>loss\<close> is zero.
\<close>

theorem transform_data_RSI:
  assumes "\<not> is_empty df" and "get_col df ''close'' = Some (NumCol cl)"
    and "get_col df ''open'' = None \<or> (\<exists>op. get_col df ''open'' = Some (NumCol op))"
    and "14 \<le> len df"
  shows "\<exists>out rsi. transform_data df = Inr out \<and> get_col out ''RSI'' = Some (NumCol rsi)
           \<and> length rsi = length cl \<and> (\<forall>i < length cl. rsi ! i = rsi_spec cl i)"
proof -
  have r: "get_col (indicators cl df) ''RSI'' = Some (NumCol (RSI cl))"
    using assms(4) by (rule get_col_indicators_RSI)
  have "\<exists>out. transform_data df = Inr out \<and> get_col out ''RSI'' = Some (NumCol (RSI cl))"
  proof (cases "get_col df ''open''")
    case None
    then have "\<not> has_col (indicators cl df) ''open''"
      by (simp add: has_col_get_col get_col_indicators_open)
    then show ?thesis using transform_data_indicators[OF assms(1,2)] r by simp
  next
    case (Some a)
    with assms(3) obtain op where op: "get_col df ''open'' = Some (NumCol op)" by auto
    then have "has_col (indicators cl df) ''open''"
      by (simp add: has_col_get_col get_col_indicators_open)
    then show ?thesis using transform_data_indicators[OF assms(1,2)] r op
      by (simp add: get_col_indicators_open get_col_set_col)
  qed
  then show ?thesis using length_RSI[of cl] RSI_nth[of _ cl] by auto
qed

theorem transform_data_RSI_witness:
  "\<not> is_empty series_zigzag
   \<and> get_col series_zigzag ''close'' = Some (NumCol zigzag_close)
   \<and> get_col series_zigzag ''open'' = Some (NumCol zigzag_close)
   \<and> 14 \<le> len series_zigzag
   \<and> (\<exists>out rsi. transform_data series_zigzag = Inr out
          \<and> get_col out ''RSI'' = Some (NumCol rsi) \<and> rsi ! 13 = Some (1300 / 19))"
proof -
  have e: "\<not> is_empty series_zigzag"
    by (simp add: series_zigzag_def zigzag_close_def is_empty_def len_def ohlcv_frame_def)
  have c: "get_col series_zigzag ''close'' = Some (NumCol zigzag_close)"
    and p: "get_col series_zigzag ''open'' = Some (NumCol zigzag_close)"
    by (simp_all add: series_zigzag_def get_col_def ohlcv_frame_def)
  have l: "14 \<le> len series_zigzag"
    by (simp add: series_zigzag_def zigzag_close_def len_def ohlcv_frame_def)
  have v: "rsi_spec zigzag_close 13 = Some (1300 / 19)"
    by code_simp
  have i: "13 < length zigzag_close"
    by (simp add: zigzag_close_def)
  from p have "get_col series_zigzag ''open'' = None
                 \<or> (\<exists>op. get_col series_zigzag ''open'' = Some (NumCol op))"
    by simp
  from transform_data_RSI[OF e c this l] obtain out rsi
    where "transform_data series_zigzag = Inr out" and "get_col out ''RSI'' = Some (NumCol rsi)"
      and "\<forall>i < length zigzag_close. rsi ! i = rsi_spec zigzag_close i"
    by blast
  with i v have "transform_data series_zigzag = Inr out \<and> get_col out ''RSI'' = Some (NumCol rsi)
                   \<and> rsi ! 13 = Some (1300 / 19)"
    by simp
  then show ?thesis using e c p l by blast
qed

section \<open>Properties of the validator\<close>

lemma bind_exn_Inr: "bind_exn r f = Inr y \<longleftrightarrow> (\<exists>x. r = Inr x \<and> f x = Inr y)"
  by (cases r) (auto simp: bind_exn_def)

lemma assert_Inr: "assert b = Inr u \<longleftrightarrow> b"
  by (simp add: assert_def)

lemma getitem_Inr: "getitem df c = Inr v \<longleftrightarrow> get_col df c = Some v"
  by (simp add: getitem_def split: option.splits)

lemma list_all_positive:
  "list_all (nan_lt (Some 0)) xs \<longleftrightarrow> (\<forall>x\<in>set xs. \<exists>y. x = Some y \<and> 0 < y)"
  by (auto simp: list_all_iff nan_lt_def split: option.splits)

lemma all_positive_Inr_True:
  "all_positive v = Inr True \<longleftrightarrow> (\<exists>xs. v = NumCol xs \<and> (\<forall>x\<in>set xs. \<exists>y. x = Some y \<and> 0 < y))"
  by (cases v) (auto simp: list_all_positive)

lemma validate_handler_True: "validate_handler r = Inr True \<longleftrightarrow> r = Inr ()"
  by (cases r) (auto simp: validate_handler_def)

lemma nan_percentage_NumCol: "nan_percentage df (NumCol xs) = real (nan_count xs) / real (len df)"
  by (simp add: nan_percentage_def nan_count_def filter_map comp_def)

text \<open>
  C5: if \<open>validate_pipeline\<close> returns true for a series, the series is non-empty, has the six
  essential columns, the five price and volume columns are numeric, the index is a datetime
  index, every close is a number greater than 0, and in close and in volume fewer than 10% of
  the entries are not-a-number.
\<close>

theorem validate_pipeline_postcondition:
  assumes "snd (validate_pipeline h r) = Inr True"
  shows "\<not> is_empty (h r)
    \<and> (\<forall>c \<in> set essential_cols. has_col (h r) c)
    \<and> (\<forall>c \<in> set numeric_cols. \<exists>xs. get_col (h r) c = Some (NumCol xs))
    \<and> is_datetime_index (index (h r))
    \<and> (\<exists>cl. get_col (h r) ''close'' = Some (NumCol cl)
          \<and> (\<forall>x \<in> set cl. \<exists>v. x = Some v \<and> 0 < v)
          \<and> real (nan_count cl) / real (len (h r)) < 1 / 10)
    \<and> (\<exists>vol. get_col (h r) ''volume'' = Some (NumCol vol)
          \<and> real (nan_count vol) / real (len (h r)) < 1 / 10)"
proof -
  let ?df = "h r"
  from assms have c: "validate_checks ?df = Inr ()"
    by (simp add: validate_pipeline_def validate_handler_True)
  then have ne: "\<not> is_empty ?df"
    and ess: "for_each (\<lambda>col. assert (has_col ?df col)) essential_cols = Inr ()"
    and num: "for_each (\<lambda>col. if has_col ?df col
                                then bind_exn (getitem ?df col) (\<lambda>v. assert (is_numeric_dtype v))
                                else Inr ()) numeric_cols = Inr ()"
    and dt: "is_datetime_index (index ?df)"
    and pos: "bind_exn (bind_exn (getitem ?df ''close'') all_positive) assert = Inr ()"
    and nan: "for_each (\<lambda>col. if has_col ?df col
                      then bind_exn (getitem ?df col) (\<lambda>v. assert (nan_percentage ?df v < 1 / 10))
                      else Inr ()) [''close'', ''volume''] = Inr ()"
    by (auto simp: validate_checks_def bind_exn_Inr assert_Inr)
  from ess have e: "\<forall>c \<in> set essential_cols. has_col ?df c"
    by (simp add: essential_cols_def bind_exn_Inr assert_Inr)
  then have hc: "has_col ?df ''open''" "has_col ?df ''high''" "has_col ?df ''low''"
    "has_col ?df ''close''" "has_col ?df ''volume''"
    by (simp_all add: essential_cols_def)
  have isnum: "is_numeric_dtype v \<Longrightarrow> \<exists>xs. v = NumCol xs" for v by (cases v) auto
  from num hc have n: "\<forall>c \<in> set numeric_cols. \<exists>xs. get_col ?df c = Some (NumCol xs)"
    by (auto simp: numeric_cols_def bind_exn_Inr assert_Inr getitem_Inr dest: isnum)
  then obtain cl vol where cl: "get_col ?df ''close'' = Some (NumCol cl)"
    and vol: "get_col ?df ''volume'' = Some (NumCol vol)"
    by (auto simp: numeric_cols_def)
  from pos cl have p: "\<forall>x \<in> set cl. \<exists>v. x = Some v \<and> 0 < v"
    by (auto simp: bind_exn_Inr assert_Inr getitem_Inr list_all_positive)
  from nan hc cl vol have "nan_percentage ?df (NumCol cl) < 1 / 10" "nan_percentage ?df (NumCol vol) < 1 / 10"
    by (auto simp: bind_exn_Inr assert_Inr getitem_Inr)
  then show ?thesis using ne e n dt cl vol p by (simp add: nan_percentage_NumCol)
qed

theorem validate_pipeline_postcondition_witness:
  "snd (validate_pipeline (\<lambda>_. series_spike) 0) = Inr True
   \<and> \<not> is_empty series_spike \<and> is_datetime_index (index series_spike)"
proof -
  have "validate_checks series_spike = Inr ()"
    by (simp add: validate_checks_def series_spike_def spike_close_def ohlcv_frame_def
        is_empty_def len_def has_col_def col_names_def get_col_def getitem_def assert_def
        bind_exn_def essential_cols_def numeric_cols_def nan_percentage_def nan_lt_def)
  then have v: "snd (validate_pipeline (\<lambda>_. series_spike) 0) = Inr True"
    by (simp add: validate_pipeline_def validate_handler_def)
  from validate_pipeline_postcondition[OF v] show ?thesis using v by simp
qed

text \<open>
  C6: \<open>validate_pipeline\<close> always returns a boolean and leaves the object store as it was.
  The boolean is true exactly when no check failed and nothing was raised: whatever exception
  reaches the handler, an \<^verbatim>\<open>AssertionError\<close> or any other, the result is false.
\<close>

theorem validate_pipeline_total:
  "validate_pipeline h r = (h, Inr (validate_checks (h r) = Inr ()))
   \<and> validate_handler (Inl e) = Inr False"
  by (cases "validate_checks (h r)") (auto simp: validate_pipeline_def validate_handler_def)

section \<open>Properties of the ingestor\<close>

lemma ingest_attempt_rejected:
  assumes "download env t sd ed k = Inr raw" and "raw_empty raw \<or> missing_cols raw \<noteq> []"
  shows "ingest_attempt env t sd ed k = Inr empty_frame"
  using assms by (auto simp: ingest_attempt_def bind_exn_def)

lemma ingest_attempt_raised:
  "download env t sd ed j = Inl e \<Longrightarrow> ingest_attempt env t sd ed j = Inl e"
  by (simp add: ingest_attempt_def bind_exn_def)

lemma ingest_loop_rejected:
  assumes "download env t sd ed k = Inr raw" and "raw_empty raw \<or> missing_cols raw \<noteq> []"
    and "\<forall>j<k. \<exists>e. download env t sd ed j = Inl e" and "k < rc" and "a \<le> k"
  shows "ingest_loop env t sd ed rc [a ..< rc] = (empty_frame, Suc k - a)"
  using assms(5)
proof (induction "k - a" arbitrary: a)
  case 0
  then have "a = k" by simp
  then have "[a ..< rc] = k # [Suc k ..< rc]" using assms(4) by (simp add: upt_conv_Cons)
  then show ?case using ingest_attempt_rejected[OF assms(1,2)] \<open>a = k\<close> by simp
next
  case (Suc n)
  then have ak: "a < k" by simp
  then obtain e where "download env t sd ed a = Inl e" using assms(3) by blast
  then have at: "ingest_attempt env t sd ed a = Inl e" by (rule ingest_attempt_raised)
  have l: "[a ..< rc] = a # [Suc a ..< rc]" using ak assms(4) by (simp add: upt_conv_Cons)
  have "Suc a \<noteq> rc" using ak assms(4) by simp
  moreover have "ingest_loop env t sd ed rc [Suc a ..< rc] = (empty_frame, Suc k - Suc a)"
    using Suc ak by (intro Suc.hyps) auto
  ultimately show ?case using at l ak by (simp add: Suc_diff_le)
qed

text \<open>
  C7: when the provider answers call \<open>k\<close> with a table that has no rows or lacks one of the
  five required columns after the names are normalised (the calls before \<open>k\<close>, if any, having
  raised, and \<open>k\<close> being within the retry count), \<open>ingest_data\<close> returns the empty frame and
  has called the provider \<open>k + 1\<close> times: no attempt follows the rejected answer. With
  \<open>k = 0\<close> the provider is called once.
\<close>

theorem ingest_structural_rejection:
  assumes "download env t sd ed k = Inr raw" and "raw_empty raw \<or> missing_cols raw \<noteq> []"
    and "\<forall>j<k. \<exists>e. download env t sd ed j = Inl e" and "k < rc"
  shows "ingest_data env t sd ed rc = (empty_frame, Suc k) \<and> is_empty empty_frame"
  using ingest_loop_rejected[OF assms, of 0]
  by (simp add: ingest_data_def is_empty_def empty_frame_def)

theorem ingest_structural_rejection_witness:
  "download env_flaky ''AAPL'' START_DATE ''2024-06-01'' 1 = Inr raw_no_volume
   \<and> missing_cols raw_no_volume = [''volume'']
   \<and> download env_flaky ''AAPL'' START_DATE ''2024-06-01'' 0 = Inl ProviderError
   \<and> ingest_data env_flaky ''AAPL'' START_DATE ''2024-06-01'' 3 = (empty_frame, 2)"
proof -
  have d1: "download env_flaky ''AAPL'' START_DATE ''2024-06-01'' 1 = Inr raw_no_volume"
    and d0: "download env_flaky ''AAPL'' START_DATE ''2024-06-01'' 0 = Inl ProviderError"
    by (simp_all add: env_flaky_def)
  have m: "missing_cols raw_no_volume = [''volume'']"
    by code_simp
  then have r: "raw_empty raw_no_volume \<or> missing_cols raw_no_volume \<noteq> []"
    by simp
  have p: "\<forall>j<1. \<exists>e. download env_flaky ''AAPL'' START_DATE ''2024-06-01'' j = Inl e"
    using d0 by simp
  have "(1::nat) < 3" by simp
  from ingest_structural_rejection[OF d1 r p this] show ?thesis using d1 d0 m by simp
qed

section \<open>Properties of the store\<close>

lemma store_data_unchanged:
  "is_empty (h r) \<or> connect env db \<noteq> None \<or> \<not> is_datetime_index (index (h r)) \<Longrightarrow>
   store_data env h r db tbl w = (h, w)"
  by (cases "index (h r)") (auto simp: store_data_def split: option.splits)

text \<open>
  C9, as stated: every non-empty series handed to \<open>store_data\<close> gets the columns year and
  month. It fails when the database cannot be opened: \<^verbatim>\<open>sqlite3.connect\<close> is called before
  the two assignments and inside the same \<^verbatim>\<open>try\<close>, so its exception skips them and the
  caller's frame stays as it was. (The same happens when the index is not a datetime index:
  \<^verbatim>\<open>df.index.year\<close> raises before anything is assigned.)
\<close>

theorem store_data_counterexample:
  "\<not> is_empty series_spike
   \<and> connect env_flaky DB_NAME = Some SqliteError
   \<and> store_data env_flaky (alloc series_spike) 0 DB_NAME ''ohlc_processed_data'' no_files
       = (alloc series_spike, no_files)
   \<and> alloc series_spike 0 = series_spike
   \<and> \<not> has_col series_spike ''year'' \<and> \<not> has_col series_spike ''month''"
proof -
  have e: "\<not> is_empty series_spike"
    by (simp add: series_spike_def spike_close_def frame_eval)
  have c: "connect env_flaky DB_NAME = Some SqliteError"
    by (simp add: env_flaky_def)
  have a: "alloc series_spike 0 = series_spike"
    by (simp add: alloc_def)
  have n: "\<not> has_col series_spike ''year''" "\<not> has_col series_spike ''month''"
    by (simp_all add: series_spike_def ohlcv_frame_def has_col_def col_names_def)
  have "store_data env_flaky (alloc series_spike) 0 DB_NAME ''ohlc_processed_data'' no_files
          = (alloc series_spike, no_files)"
    using c by (intro store_data_unchanged) simp
  with e c a n show ?thesis by simp
qed

text \<open>
  C9, amended: for every non-empty series with a datetime index, when the database
  connection opens, \<open>store_data\<close> replaces the object at the caller's address by the frame
  with the columns year and month (taken from the index) assigned: same index, every other
  column as before, no other object touched; and the frame that is appended to the table, if
  the engine accepts it, is that changed frame. When the connection cannot be opened, the
  index is not a datetime index, or the series is empty, the object is left as it was
  (\<open>store_data_unchanged\<close>).
\<close>

theorem store_data_in_place:
  assumes "\<not> is_empty (h r)" and "connect env db = None" and "index (h r) = DatetimeIndex ds"
  shows "\<exists>df'. fst (store_data env h r db tbl w) = h(r := df')
          \<and> index df' = index (h r)
          \<and> set (col_names df') = set (col_names (h r)) \<union> {''year'', ''month''}
          \<and> get_col df' ''year'' = Some (NumCol (map (\<lambda>d. Some (real (year d))) ds))
          \<and> get_col df' ''month'' = Some (NumCol (map (\<lambda>d. Some (real (month d))) ds))
          \<and> (\<forall>c. c \<noteq> ''year'' \<longrightarrow> c \<noteq> ''month'' \<longrightarrow> get_col df' c = get_col (h r) c)
          \<and> (to_sql_error env (w db) tbl df' = None \<longrightarrow>
               snd (store_data env h r db tbl w) db tbl = w db tbl @ [df'])"
proof -
  define df' where "df' = set_col ''month'' (NumCol (map (\<lambda>d. Some (real (month d))) ds))
                      (set_col ''year'' (NumCol (map (\<lambda>d. Some (real (year d))) ds)) (h r))"
  have 1: "fst (store_data env h r db tbl w) = h(r := df')"
    using assms by (simp add: store_data_def df'_def Let_def split: option.splits)
  have 2: "index df' = index (h r)" by (simp add: df'_def index_set_col)
  have 3: "set (col_names df') = set (col_names (h r)) \<union> {''year'', ''month''}"
    by (auto simp: df'_def col_names_set_col)
  have 4: "get_col df' ''year'' = Some (NumCol (map (\<lambda>d. Some (real (year d))) ds))"
    and 5: "get_col df' ''month'' = Some (NumCol (map (\<lambda>d. Some (real (month d))) ds))"
    and 6: "\<forall>c. c \<noteq> ''year'' \<longrightarrow> c \<noteq> ''month'' \<longrightarrow> get_col df' c = get_col (h r) c"
    by (simp_all add: df'_def get_col_set_col)
  have 7: "to_sql_error env (w db) tbl df' = None \<longrightarrow>
             snd (store_data env h r db tbl w) db tbl = w db tbl @ [df']"
    using assms by (simp add: store_data_def df'_def Let_def)
  show ?thesis by (intro exI[of _ df'] conjI 1 2 3 4 5 6 7)
qed

theorem store_data_in_place_witness:
  "\<not> is_empty series_spike \<and> connect env_online DB_NAME = None
   \<and> index series_spike = DatetimeIndex (days_from 0 spike_close)
   \<and> get_col (fst (store_data env_online (alloc series_spike) 0 DB_NAME
                       ''ohlc_processed_data'' no_files) 0) ''year''
       = Some (NumCol [Some 2020, Some 2020, Some 2020, Some 2020, Some 2020])
   \<and> get_col (fst (store_data env_online (alloc series_spike) 0 DB_NAME
                       ''ohlc_processed_data'' no_files) 0) ''month''
       = Some (NumCol [Some 1, Some 1, Some 1, Some 1, Some 1])"
proof -
  have e: "\<not> is_empty (alloc series_spike 0)"
    by (simp add: alloc_def series_spike_def spike_close_def frame_eval)
  have c: "connect env_online DB_NAME = None"
    by (simp add: env_online_def)
  have i: "index (alloc series_spike 0) = DatetimeIndex (days_from 0 spike_close)"
    by (simp add: alloc_def series_spike_def ohlcv_frame_def)
  from store_data_in_place[where h = "alloc series_spike" and r = 0 and env = env_online
      and db = DB_NAME and ds = "days_from 0 spike_close" and tbl = "''ohlc_processed_data''"
      and w = no_files, OF e c i]
  obtain df' where
    "fst (store_data env_online (alloc series_spike) 0 DB_NAME ''ohlc_processed_data'' no_files)
       = (alloc series_spike)(0 := df')"
    and "get_col df' ''year''
           = Some (NumCol (map (\<lambda>d. Some (real (year d))) (days_from 0 spike_close)))"
    and "get_col df' ''month''
           = Some (NumCol (map (\<lambda>d. Some (real (month d))) (days_from 0 spike_close)))"
    by blast
  then show ?thesis using e c i by (simp add: alloc_def spike_close_def)
qed

text \<open>
  C10: \<open>retrieve_data\<close> returns what the engine answers to the query text built from its
  arguments (the empty frame if the connection or the read fails), so two calls that build
  the same text behave alike. An empty ticker, a year 0 and a month 0 build the text of the
  call with that argument left out, whatever the other arguments are. A non-empty ticker, a
  non-zero year and a non-zero month each contribute one equality condition; for each of the
  eight ways of giving or omitting the three filters the text is the table name, then the
  conditions of the given filters in the order ticker, year, month joined by AND after WHERE
  (nothing when none is given), then the ordering clause.
\<close>

theorem retrieve_data_filters:
  "retrieve_data env w db tbl tk yr mo =
     (case connect env db of
        Some e \<Rightarrow> empty_frame
      | None \<Rightarrow> (case read_sql_query env (w db) (query tbl tk yr mo) of
                   Inl e \<Rightarrow> empty_frame
                 | Inr df \<Rightarrow> df))
   \<and> query tbl (Some []) yr mo = query tbl None yr mo
   \<and> query tbl tk (Some 0) mo = query tbl tk None mo
   \<and> query tbl tk yr (Some 0) = query tbl tk yr None
   \<and> retrieve_data env w db tbl (Some []) yr mo = retrieve_data env w db tbl None yr mo
   \<and> retrieve_data env w db tbl tk (Some 0) mo = retrieve_data env w db tbl tk None mo
   \<and> retrieve_data env w db tbl tk yr (Some 0) = retrieve_data env w db tbl tk yr None
   \<and> query tbl None None None = ''SELECT * FROM '' @ tbl @ '' ORDER BY date;''
   \<and> (t \<noteq> [] \<longrightarrow> query tbl (Some t) None None =
        ''SELECT * FROM '' @ tbl @ '' WHERE ticker = '' @ [CHR 0x27] @ t @ [CHR 0x27]
        @ '' ORDER BY date;'')
   \<and> (y \<noteq> 0 \<longrightarrow> query tbl None (Some y) None =
        ''SELECT * FROM '' @ tbl @ '' WHERE year = '' @ str_int y @ '' ORDER BY date;'')
   \<and> (m \<noteq> 0 \<longrightarrow> query tbl None None (Some m) =
        ''SELECT * FROM '' @ tbl @ '' WHERE month = '' @ str_int m @ '' ORDER BY date;'')
   \<and> (t \<noteq> [] \<longrightarrow> y \<noteq> 0 \<longrightarrow> query tbl (Some t) (Some y) None =
        ''SELECT * FROM '' @ tbl @ '' WHERE ticker = '' @ [CHR 0x27] @ t @ [CHR 0x27]
        @ '' AND year = '' @ str_int y @ '' ORDER BY date;'')
   \<and> (t \<noteq> [] \<longrightarrow> m \<noteq> 0 \<longrightarrow> query tbl (Some t) None (Some m) =
        ''SELECT * FROM '' @ tbl @ '' WHERE ticker = '' @ [CHR 0x27] @ t @ [CHR 0x27]
        @ '' AND month = '' @ str_int m @ '' ORDER BY date;'')
   \<and> (y \<noteq> 0 \<longrightarrow> m \<noteq> 0 \<longrightarrow> query tbl None (Some y) (Some m) =
        ''SELECT * FROM '' @ tbl @ '' WHERE year = '' @ str_int y
        @ '' AND month = '' @ str_int m @ '' ORDER BY date;'')
   \<and> (t \<noteq> [] \<longrightarrow> y \<noteq> 0 \<longrightarrow> m \<noteq> 0 \<longrightarrow> query tbl (Some t) (Some y) (Some m) =
        ''SELECT * FROM '' @ tbl @ '' WHERE ticker = '' @ [CHR 0x27] @ t @ [CHR 0x27]
        @ '' AND year = '' @ str_int y @ '' AND month = '' @ str_int m @ '' ORDER BY date;'')"
proof -
  have l: "retrieve_data env w db tbl tk yr mo =
     (case connect env db of
        Some e \<Rightarrow> empty_frame
      | None \<Rightarrow> (case read_sql_query env (w db) (query tbl tk yr mo) of
                   Inl e \<Rightarrow> empty_frame
                 | Inr df \<Rightarrow> df))"
    by (simp only: retrieve_data_def)
  have c1: "conditions (Some []) yr mo = conditions None yr mo"
    and c2: "conditions tk (Some 0) mo = conditions tk None mo"
    and c3: "conditions tk yr (Some 0) = conditions tk yr None"
    by (simp_all add: conditions_def truthy_str_def truthy_int_def)
  have q1: "query tbl (Some []) yr mo = query tbl None yr mo"
    and q2: "query tbl tk (Some 0) mo = query tbl tk None mo"
    and q3: "query tbl tk yr (Some 0) = query tbl tk yr None"
    by (simp_all only: query_def c1 c2 c3)
  have r1: "retrieve_data env w db tbl (Some []) yr mo = retrieve_data env w db tbl None yr mo"
    and r2: "retrieve_data env w db tbl tk (Some 0) mo = retrieve_data env w db tbl tk None mo"
    and r3: "retrieve_data env w db tbl tk yr (Some 0) = retrieve_data env w db tbl tk yr None"
    by (simp_all only: retrieve_data_def q1 q2 q3)
  note ev = query_def conditions_def truthy_str_def truthy_int_def
  have 0: "query tbl None None None = ''SELECT * FROM '' @ tbl @ '' ORDER BY date;''"
    by (simp add: ev)
  have 1: "t \<noteq> [] \<longrightarrow> query tbl (Some t) None None =
        ''SELECT * FROM '' @ tbl @ '' WHERE ticker = '' @ [CHR 0x27] @ t @ [CHR 0x27]
        @ '' ORDER BY date;''"
    by (simp add: ev)
  have 2: "y \<noteq> 0 \<longrightarrow> query tbl None (Some y) None =
        ''SELECT * FROM '' @ tbl @ '' WHERE year = '' @ str_int y @ '' ORDER BY date;''"
    by (simp add: ev)
  have 3: "m \<noteq> 0 \<longrightarrow> query tbl None None (Some m) =
        ''SELECT * FROM '' @ tbl @ '' WHERE month = '' @ str_int m @ '' ORDER BY date;''"
    by (simp add: ev)
  have 4: "t \<noteq> [] \<longrightarrow> y \<noteq> 0 \<longrightarrow> query tbl (Some t) (Some y) None =
        ''SELECT * FROM '' @ tbl @ '' WHERE ticker = '' @ [CHR 0x27] @ t @ [CHR 0x27]
        @ '' AND year = '' @ str_int y @ '' ORDER BY date;''"
    by (simp add: ev)
  have 5: "t \<noteq> [] \<longrightarrow> m \<noteq> 0 \<longrightarrow> query tbl (Some t) None (Some m) =
        ''SELECT * FROM '' @ tbl @ '' WHERE ticker = '' @ [CHR 0x27] @ t @ [CHR 0x27]
        @ '' AND month = '' @ str_int m @ '' ORDER BY date;''"
    by (simp add: ev)
  have 6: "y \<noteq> 0 \<longrightarrow> m \<noteq> 0 \<longrightarrow> query tbl None (Some y) (Some m) =
        ''SELECT * FROM '' @ tbl @ '' WHERE year = '' @ str_int y
        @ '' AND month = '' @ str_int m @ '' ORDER BY date;''"
    by (simp add: ev)
  have 7: "t \<noteq> [] \<longrightarrow> y \<noteq> 0 \<longrightarrow> m \<noteq> 0 \<longrightarrow> query tbl (Some t) (Some y) (Some m) =
        ''SELECT * FROM '' @ tbl @ '' WHERE ticker = '' @ [CHR 0x27] @ t @ [CHR 0x27]
        @ '' AND year = '' @ str_int y @ '' AND month = '' @ str_int m @ '' ORDER BY date;''"
    by (simp add: ev)
  show ?thesis by (intro conjI l q1 q2 q3 r1 r2 r3 0 1 2 3 4 5 6 7)
qed

theorem retrieve_data_filters_witness:
  "''AAPL'' \<noteq> [] \<and> (2020 :: int) \<noteq> 0 \<and> (3 :: int) \<noteq> 0
   \<and> retrieve_data env_echo no_files DB_NAME ''ohlc_processed_data''
         (Some ''AAPL'') (Some 2020) (Some 3)
       = echo_frame (''SELECT * FROM ohlc_processed_data WHERE ticker = '' @ [CHR 0x27]
           @ ''AAPL'' @ [CHR 0x27] @ '' AND year = 2020 AND month = 3 ORDER BY date;'')
   \<and> retrieve_data env_echo no_files DB_NAME ''ohlc_processed_data''
         (Some ''AAPL'') (Some 2020) (Some 0)
       = echo_frame (''SELECT * FROM ohlc_processed_data WHERE ticker = '' @ [CHR 0x27]
           @ ''AAPL'' @ [CHR 0x27] @ '' AND year = 2020 ORDER BY date;'')
   \<and> retrieve_data env_echo no_files DB_NAME ''ohlc_processed_data''
         (Some []) (Some 0) (Some 3)
       = echo_frame ''SELECT * FROM ohlc_processed_data WHERE month = 3 ORDER BY date;''
   \<and> retrieve_data env_echo no_files DB_NAME ''ohlc_processed_data'' None None None
       = echo_frame ''SELECT * FROM ohlc_processed_data ORDER BY date;''"
proof -
  let ?tbl = "''ohlc_processed_data''"
  have s: "str_int 2020 = ''2020''" "str_int 3 = ''3''"
    by (simp_all add: str_int_def digit_char_def)
  have h: "''AAPL'' \<noteq> []" "(2020 :: int) \<noteq> 0" "(3 :: int) \<noteq> 0"
    by simp_all
  note t = retrieve_data_filters[where env = env_echo and w = no_files and db = DB_NAME
      and tbl = ?tbl and t = "''AAPL''" and y = 2020 and m = 3]
  have r: "retrieve_data env_echo no_files DB_NAME ?tbl tk yr mo = echo_frame (query ?tbl tk yr mo)"
    for tk yr mo
    using t[where tk = tk and yr = yr and mo = mo] by (simp add: env_echo_def)
  have q7: "query ?tbl (Some ''AAPL'') (Some 2020) (Some 3) =
        ''SELECT * FROM '' @ ?tbl @ '' WHERE ticker = '' @ [CHR 0x27] @ ''AAPL'' @ [CHR 0x27]
        @ '' AND year = '' @ str_int 2020 @ '' AND month = '' @ str_int 3 @ '' ORDER BY date;''"
    and q4: "query ?tbl (Some ''AAPL'') (Some 2020) None =
        ''SELECT * FROM '' @ ?tbl @ '' WHERE ticker = '' @ [CHR 0x27] @ ''AAPL'' @ [CHR 0x27]
        @ '' AND year = '' @ str_int 2020 @ '' ORDER BY date;''"
    and q3: "query ?tbl None None (Some 3) =
        ''SELECT * FROM '' @ ?tbl @ '' WHERE month = '' @ str_int 3 @ '' ORDER BY date;''"
    and q0: "query ?tbl None None None = ''SELECT * FROM '' @ ?tbl @ '' ORDER BY date;''"
    using t[where tk = None and yr = None and mo = None] h by blast+
  have e1: "query ?tbl (Some ''AAPL'') (Some 2020) (Some 0) = query ?tbl (Some ''AAPL'') (Some 2020) None"
    using t[where tk = "Some ''AAPL''" and yr = "Some 2020" and mo = None] by blast
  have "query ?tbl (Some []) (Some 0) (Some 3) = query ?tbl None (Some 0) (Some 3)"
    using t[where tk = None and yr = "Some 0" and mo = "Some 3"] by blast
  also have "\<dots> = query ?tbl None None (Some 3)"
    using t[where tk = None and yr = None and mo = "Some 3"] by blast
  finally have e2: "query ?tbl (Some []) (Some 0) (Some 3) = query ?tbl None None (Some 3)" .
  have a: "retrieve_data env_echo no_files DB_NAME ?tbl (Some ''AAPL'') (Some 2020) (Some 3)
       = echo_frame (''SELECT * FROM ohlc_processed_data WHERE ticker = '' @ [CHR 0x27]
           @ ''AAPL'' @ [CHR 0x27] @ '' AND year = 2020 AND month = 3 ORDER BY date;'')"
    unfolding r q7 s by simp
  have b: "retrieve_data env_echo no_files DB_NAME ?tbl (Some ''AAPL'') (Some 2020) (Some 0)
       = echo_frame (''SELECT * FROM ohlc_processed_data WHERE ticker = '' @ [CHR 0x27]
           @ ''AAPL'' @ [CHR 0x27] @ '' AND year = 2020 ORDER BY date;'')"
    unfolding r e1 q4 s by simp
  have c: "retrieve_data env_echo no_files DB_NAME ?tbl (Some []) (Some 0) (Some 3)
       = echo_frame ''SELECT * FROM ohlc_processed_data WHERE month = 3 ORDER BY date;''"
    unfolding r e2 q3 s by simp
  have d: "retrieve_data env_echo no_files DB_NAME ?tbl None None None
       = echo_frame ''SELECT * FROM ohlc_processed_data ORDER BY date;''"
    unfolding r q0 by simp
  show ?thesis by (intro conjI h a b c d)
qed

section \<open>Properties of the orchestrator\<close>

lemma process_ticker_fails: "\<not> passes env ed t \<Longrightarrow> process_ticker env ed st t = st"
  by (auto simp: passes_def process_ticker_def ticker_body_def bind_exn_def
      split: sum.splits option.splits)

lemma process_ticker_snd:
  "snd (process_ticker env ed st t) = (if passes env ed t then snd st @ [t] else snd st)"
  by (auto simp: passes_def process_ticker_def ticker_body_def bind_exn_def
      split: sum.splits option.splits prod.splits)

lemma run_loop_filter:
  "run_loop env ed st ts = run_loop env ed st (filter (passes env ed) ts)"
  unfolding run_loop_def
  by (induction ts arbitrary: st) (simp_all add: process_ticker_fails)

lemma snd_run_loop: "snd (run_loop env ed st ts) = snd st @ filter (passes env ed) ts"
  unfolding run_loop_def
  by (induction ts arbitrary: st) (simp_all add: process_ticker_snd)

lemma passes_iff:
  "passes env ed t \<longleftrightarrow>
     (\<exists>c tf. \<not> is_empty (fst (ingest_data env t START_DATE ed 3))
        \<and> clean_data (fst (ingest_data env t START_DATE ed 3)) = Inr c \<and> \<not> is_empty c
        \<and> transform_data c = Inr tf \<and> \<not> is_empty tf
        \<and> snd (validate_pipeline (alloc tf) 0) = Inr True)"
  by (auto simp: passes_def stages_def Let_def bind_exn_def split: sum.splits if_splits)

text \<open>
  C8: in a run, a ticker for which a stage returned an empty frame, the validation returned
  false, or a stage raised (\<open>passes_iff\<close> spells the three out) leaves the state of the run as
  it was when its turn came: nothing is appended to the table and the loop goes on with the
  next ticker. At the end it is among the failed tickers and not among the successful ones,
  the successful ones are exactly those that passed, and the world and the success list are
  those of a run over the ticker list without it.
\<close>

theorem orchestrator_isolation:
  assumes "run_data_pipeline env ed w = (w', successful, failed)"
    and "t \<in> set TICKERS" and "\<not> passes env ed t"
  shows "process_ticker env ed st t = st
    \<and> t \<notin> set successful \<and> t \<in> set failed
    \<and> successful = filter (passes env ed) TICKERS
    \<and> (w', successful)
        = run_loop env ed (w(DB_NAME := (\<lambda>_. [])), []) (filter (\<lambda>u. u \<noteq> t) TICKERS)"
proof -
  let ?st0 = "(w(DB_NAME := (\<lambda>_. [])), [])"
  from assms(1) have r: "run_loop env ed ?st0 TICKERS = (w', successful)"
    and f: "failed = filter (\<lambda>t. t \<notin> set successful) TICKERS"
    by (auto simp: run_data_pipeline_def Let_def split: prod.splits)
  have s: "successful = filter (passes env ed) TICKERS"
    using snd_run_loop[of env ed ?st0 TICKERS] r by simp
  then have n: "t \<notin> set successful" using assms(3) by simp
  then have i: "t \<in> set failed" using f assms(2) by simp
  have "filter (passes env ed) (filter (\<lambda>u. u \<noteq> t) TICKERS) = filter (passes env ed) TICKERS"
    using assms(3) by (auto simp: filter_filter intro: filter_cong)
  then have "run_loop env ed ?st0 (filter (\<lambda>u. u \<noteq> t) TICKERS) = run_loop env ed ?st0 TICKERS"
    using run_loop_filter[of env ed ?st0 TICKERS]
      run_loop_filter[of env ed ?st0 "filter (\<lambda>u. u \<noteq> t) TICKERS"] by simp
  then show ?thesis using r s n i process_ticker_fails[OF assms(3)] by simp
qed

lemma ingest_flaky: "ingest_data env_flaky t sd ed 3 = (empty_frame, 2)"
proof -
  have d1: "download env_flaky t sd ed 1 = Inr raw_no_volume"
    and d0: "\<forall>j<1. \<exists>e. download env_flaky t sd ed j = Inl e"
    by (simp_all add: env_flaky_def)
  have "missing_cols raw_no_volume = [''volume'']"
    by code_simp
  then have r: "raw_empty raw_no_volume \<or> missing_cols raw_no_volume \<noteq> []"
    by simp
  have "(1::nat) < 3" "(0::nat) \<le> 1" by simp_all
  from ingest_loop_rejected[OF d1 r d0 this] show ?thesis by (simp add: ingest_data_def)
qed

lemma not_passes_flaky: "\<not> passes env_flaky ed t"
  by (simp add: passes_iff ingest_flaky is_empty_def empty_frame_def len_def)

theorem orchestrator_isolation_witness:
  "run_data_pipeline env_flaky ''2024-06-01'' no_files
     = (no_files(DB_NAME := (no_files DB_NAME)), [], TICKERS)
   \<and> ''AAPL'' \<in> set TICKERS \<and> \<not> passes env_flaky ''2024-06-01'' ''AAPL''
   \<and> process_ticker env_flaky ''2024-06-01'' (no_files, []) ''AAPL'' = (no_files, [])"
proof -
  let ?ed = "''2024-06-01''"
  have f: "filter (passes env_flaky ?ed) ts = []" for ts
    by (simp add: not_passes_flaky)
  have e: "no_files(DB_NAME := (\<lambda>_. [])) = no_files(DB_NAME := (no_files DB_NAME))"
    by (simp add: no_files_def)
  have "run_loop env_flaky ?ed (no_files(DB_NAME := (\<lambda>_. [])), []) TICKERS
          = (no_files(DB_NAME := (\<lambda>_. [])), [])"
    using run_loop_filter[of env_flaky ?ed _ TICKERS] by (simp add: f run_loop_def)
  then have r: "run_data_pipeline env_flaky ?ed no_files
                  = (no_files(DB_NAME := (no_files DB_NAME)), [], TICKERS)"
    by (simp add: run_data_pipeline_def e)
  have m: "''AAPL'' \<in> set TICKERS" by (simp add: TICKERS_def)
  from orchestrator_isolation[OF r m not_passes_flaky, of "(no_files, [])"]
  have "process_ticker env_flaky ?ed (no_files, []) ''AAPL'' = (no_files, [])"
    by (rule conjunct1)
  with r m show ?thesis using not_passes_flaky[of ?ed "''AAPL''"] by simp
qed

end
